theory Spec2Isabelle
  imports Main "HOL-Library.Word"
begin

section \<open>Memory, element type and outcomes\<close>

text \<open>
  \<open>vector.h\<close> defines two class templates over an element type \<open>T\<close>: \<open>RawMemory<T>\<close>,
  an owning handle to a block of raw slots, and \<open>Vector<T>\<close>, a \<open>RawMemory<T>\<close> plus the
  count of live elements.

  \<^item> The members \<open>buffer_\<close>, \<open>capacity_\<close>, \<open>data_\<close> and \<open>size_\<close> are the fields
    \<open>m_buffer\<close>, \<open>m_capacity\<close>, \<open>m_data\<close> and \<open>m_size\<close>.
  \<^item> \<open>size_t\<close> is a 64-bit word: \<open>size_ * 2\<close>, \<open>size_ - 1\<close>, \<open>++size_\<close> and
    \<open>n * sizeof(T)\<close> wrap around as they do in the program.
  \<^item> A pointer \<open>T*\<close> is a block address and a slot offset; address \<open>0\<close> is \<open>nullptr\<close>.
  \<^item> The heap is the list of all blocks ever handed out by \<open>operator new\<close>: address
    \<open>a > 0\<close> names the \<open>a\<close>-th of them, \<open>None\<close> marks a block that was deleted, and
    addresses are never reused. A block is a list of slots; a slot is \<open>None\<close> while it is
    raw memory and \<open>Some x\<close> while it holds the live object \<open>x\<close>.
  \<^item> \<open>Vector\<close> objects live in a store indexed by their identity (the address that
    \<open>this\<close> and \<open>&rhs\<close> compare), so that two references may name the same object.
  \<^item> Every call of a constructor, assignment operator or destructor of \<open>T\<close> appends
    an event to a trace.
\<close>

type_synonym size_t = "64 word"
type_synonym addr = nat
type_synonym ptr = "addr \<times> nat"

record RawMemory =
  m_buffer :: addr
  m_capacity :: size_t

record Vector =
  m_data :: RawMemory
  m_size :: size_t

datatype event = Construct | ValueInit | CopyCtor | MoveCtor | CopyAsg | MoveAsg | Dtor

record 'a state =
  heap :: "'a option list option list"
  limit :: nat
  vecs :: "nat \<Rightarrow> Vector option"
  trace :: "event list"

text \<open>
  The element type \<open>T\<close> is a template parameter. Here it is a record of what
  the program asks of it: \<open>sizeof(T)\<close>, the two type traits of the relocation policy, the
  trait in the exception specification of \<open>Erase\<close>, and its special member functions. A
  copy yields the value copied; a move yields the value moved and leaves \<open>moved_from\<close> of
  it behind; each of them may throw, depending on the value. \<open>construct\<close> is
  \<open>T(args...)\<close> and \<open>value_init\<close> is \<open>T()\<close>, \<open>None\<close> when they throw.
\<close>

record ('a, 'g) elem_type =
  sizeof_T :: size_t
  nothrow_move_constructible :: bool
  copy_constructible :: bool
  nothrow_move_assignable :: bool
  construct :: "'g \<Rightarrow> 'a option"
  value_init :: "'a option"
  copy_throws :: "'a \<Rightarrow> bool"
  move_throws :: "'a \<Rightarrow> bool"
  copy_assign_throws :: "'a \<Rightarrow> bool"
  move_assign_throws :: "'a \<Rightarrow> bool"
  moved_from :: "'a \<Rightarrow> 'a"

text \<open>
  A call returns normally (\<open>Done\<close>, with its result and the state), leaves by an
  exception after unwinding (\<open>Thrown\<close>, with the state the caller then sees), or has no
  defined behaviour (\<open>Undefined\<close>): a failed \<open>assert\<close>, an access outside a block or to
  a slot that holds no object, deleting a block twice, an exception leaving a \<open>noexcept\<close>
  function.
\<close>

datatype exn = bad_alloc | elem_exn

datatype ('r, 's) outcome = Done 'r 's | Thrown exn 's | Undefined

fun and_then :: "('r, 's) outcome \<Rightarrow> ('r \<Rightarrow> 's \<Rightarrow> ('q, 's) outcome) \<Rightarrow> ('q, 's) outcome" where
  "and_then (Done r s) f = f r s"
| "and_then (Thrown e s) f = Thrown e s"
| "and_then Undefined f = Undefined"

text \<open>Stack unwinding: the destructor \<open>d\<close> of a local runs when an exception passes.\<close>

fun unwind :: "('r, 's) outcome \<Rightarrow> ('s \<Rightarrow> (unit, 's) outcome) \<Rightarrow> ('r, 's) outcome" where
  "unwind (Done r s) d = Done r s"
| "unwind (Thrown e s) d = (case d s of Done u s' \<Rightarrow> Thrown e s' | Thrown e' s' \<Rightarrow> Undefined | Undefined \<Rightarrow> Undefined)"
| "unwind Undefined d = Undefined"

subsection \<open>Blocks and slots\<close>

definition block :: "'a state \<Rightarrow> addr \<Rightarrow> 'a option list option" where
  "block s a = (if a = 0 \<or> length (heap s) < a then None else heap s ! (a - 1))"

definition set_block :: "addr \<Rightarrow> 'a option list option \<Rightarrow> 'a state \<Rightarrow> 'a state" where
  "set_block a b s = s\<lparr>heap := (heap s)[a - 1 := b]\<rparr>"

definition padd :: "ptr \<Rightarrow> nat \<Rightarrow> ptr" where
  "padd p k = (fst p, snd p + k)"

definition peek :: "'a state \<Rightarrow> ptr \<Rightarrow> 'a option" where
  "peek s p = (case block s (fst p) of None \<Rightarrow> None
               | Some b \<Rightarrow> if snd p < length b then b ! snd p else None)"

definition in_block :: "'a state \<Rightarrow> ptr \<Rightarrow> bool" where
  "in_block s p = (case block s (fst p) of None \<Rightarrow> False | Some b \<Rightarrow> snd p < length b)"

definition poke :: "ptr \<Rightarrow> 'a option \<Rightarrow> 'a state \<Rightarrow> 'a state" where
  "poke p v s = (case block s (fst p) of None \<Rightarrow> s
                 | Some b \<Rightarrow> set_block (fst p) (Some (b[snd p := v])) s)"

definition emit :: "event \<Rightarrow> 'a state \<Rightarrow> 'a state" where
  "emit e s = s\<lparr>trace := trace s @ [e]\<rparr>"

text \<open>
  \<open>operator new(bytes)\<close> throws \<open>std::bad_alloc\<close> when the request exceeds what the
  allocator can serve (\<open>limit\<close>); otherwise it returns a new block, which has room for
  \<open>bytes div sizeof(T)\<close> slots. \<open>operator delete\<close> of \<open>nullptr\<close> does nothing.
\<close>

definition operator_new :: "('a, 'g) elem_type \<Rightarrow> size_t \<Rightarrow> 'a state \<Rightarrow> (addr \<times> 'a state) option" where
  "operator_new T bytes s =
     (if limit s < unat bytes then None
      else Some (Suc (length (heap s)),
                 s\<lparr>heap := heap s @ [Some (replicate (unat bytes div unat (sizeof_T T)) None)]\<rparr>))"

definition operator_delete :: "addr \<Rightarrow> 'a state \<Rightarrow> (unit, 'a state) outcome" where
  "operator_delete buf s =
     (if buf = 0 then Done () s
      else case block s buf of None \<Rightarrow> Undefined | Some b \<Rightarrow> Done () (set_block buf None s))"

subsection \<open>Single objects\<close>

text \<open>Placement new of an already built value, and \<open>std::destroy_at\<close>.\<close>

definition construct_at :: "event \<Rightarrow> ptr \<Rightarrow> 'a \<Rightarrow> 'a state \<Rightarrow> (unit, 'a state) outcome" where
  "construct_at e p x s = (if in_block s p then Done () (emit e (poke p (Some x) s)) else Undefined)"

definition destroy_at :: "ptr \<Rightarrow> 'a state \<Rightarrow> (unit, 'a state) outcome" where
  "destroy_at p s = (case peek s p of None \<Rightarrow> Undefined
                     | Some x \<Rightarrow> Done () (emit Dtor (poke p None s)))"

text \<open>
  \<open>new (dst) T(std::move(*src))\<close> and \<open>*dst = std::move(*src)\<close>. A move declared
  \<open>noexcept\<close> that throws ends the program.
\<close>

definition move_construct_at :: "('a, 'g) elem_type \<Rightarrow> ptr \<Rightarrow> ptr \<Rightarrow> 'a state \<Rightarrow> (unit, 'a state) outcome" where
  "move_construct_at T src dst s =
     (case peek s src of None \<Rightarrow> Undefined
      | Some x \<Rightarrow>
          if move_throws T x then (if nothrow_move_constructible T then Undefined else Thrown elem_exn s)
          else construct_at MoveCtor dst x (poke src (Some (moved_from T x)) s))"

definition move_assign_at :: "('a, 'g) elem_type \<Rightarrow> ptr \<Rightarrow> ptr \<Rightarrow> 'a state \<Rightarrow> (unit, 'a state) outcome" where
  "move_assign_at T src dst s =
     (case peek s src of None \<Rightarrow> Undefined
      | Some x \<Rightarrow>
          (case peek s dst of None \<Rightarrow> Undefined
           | Some y \<Rightarrow>
               if move_assign_throws T x then (if nothrow_move_assignable T then Undefined else Thrown elem_exn s)
               else Done () (emit MoveAsg (poke dst (Some x) (poke src (Some (moved_from T x)) s)))))"

definition copy_construct_at :: "('a, 'g) elem_type \<Rightarrow> ptr \<Rightarrow> ptr \<Rightarrow> 'a state \<Rightarrow> (unit, 'a state) outcome" where
  "copy_construct_at T src dst s =
     (case peek s src of None \<Rightarrow> Undefined
      | Some x \<Rightarrow> if copy_throws T x then Thrown elem_exn s else construct_at CopyCtor dst x s)"

definition copy_assign_at :: "('a, 'g) elem_type \<Rightarrow> ptr \<Rightarrow> ptr \<Rightarrow> 'a state \<Rightarrow> (unit, 'a state) outcome" where
  "copy_assign_at T src dst s =
     (case peek s src of None \<Rightarrow> Undefined
      | Some x \<Rightarrow>
          (case peek s dst of None \<Rightarrow> Undefined
           | Some y \<Rightarrow> if copy_assign_throws T x then Thrown elem_exn s
                       else Done () (emit CopyAsg (poke dst (Some x) s))))"

subsection \<open>The standard algorithms on ranges\<close>

text \<open>
  The loops of \<open><memory>\<close> and \<open><algorithm>\<close> that the vector calls, one object per
  step. The \<open>uninitialized_\<close> algorithms destroy what they have built when a constructor
  throws and pass the exception on; \<open>k\<close> counts the objects built so far.
\<close>

fun destroy_n :: "ptr \<Rightarrow> nat \<Rightarrow> 'a state \<Rightarrow> (unit, 'a state) outcome" where
  "destroy_n p 0 s = Done () s"
| "destroy_n p (Suc n) s = and_then (destroy_at p s) (\<lambda>u. destroy_n (padd p 1) n)"

fun uninit_copy_loop :: "('a, 'g) elem_type \<Rightarrow> ptr \<Rightarrow> ptr \<Rightarrow> nat \<Rightarrow> nat \<Rightarrow> 'a state \<Rightarrow> (unit, 'a state) outcome" where
  "uninit_copy_loop T first result k 0 s = Done () s"
| "uninit_copy_loop T first result k (Suc n) s =
     (case copy_construct_at T (padd first k) (padd result k) s of
        Done u s' \<Rightarrow> uninit_copy_loop T first result (Suc k) n s'
      | Thrown e s' \<Rightarrow> and_then (destroy_n result k s') (\<lambda>u. Thrown e)
      | Undefined \<Rightarrow> Undefined)"

definition uninitialized_copy_n :: "('a, 'g) elem_type \<Rightarrow> ptr \<Rightarrow> nat \<Rightarrow> ptr \<Rightarrow> 'a state \<Rightarrow> (unit, 'a state) outcome" where
  "uninitialized_copy_n T first n result s = uninit_copy_loop T first result 0 n s"

fun uninit_move_loop :: "('a, 'g) elem_type \<Rightarrow> ptr \<Rightarrow> ptr \<Rightarrow> nat \<Rightarrow> nat \<Rightarrow> 'a state \<Rightarrow> (unit, 'a state) outcome" where
  "uninit_move_loop T first result k 0 s = Done () s"
| "uninit_move_loop T first result k (Suc n) s =
     (case move_construct_at T (padd first k) (padd result k) s of
        Done u s' \<Rightarrow> uninit_move_loop T first result (Suc k) n s'
      | Thrown e s' \<Rightarrow> and_then (destroy_n result k s') (\<lambda>u. Thrown e)
      | Undefined \<Rightarrow> Undefined)"

definition uninitialized_move_n :: "('a, 'g) elem_type \<Rightarrow> ptr \<Rightarrow> nat \<Rightarrow> ptr \<Rightarrow> 'a state \<Rightarrow> (unit, 'a state) outcome" where
  "uninitialized_move_n T first n result s = uninit_move_loop T first result 0 n s"

fun uninit_value_loop :: "('a, 'g) elem_type \<Rightarrow> ptr \<Rightarrow> nat \<Rightarrow> nat \<Rightarrow> 'a state \<Rightarrow> (unit, 'a state) outcome" where
  "uninit_value_loop T first k 0 s = Done () s"
| "uninit_value_loop T first k (Suc n) s =
     (case value_init T of
        None \<Rightarrow> and_then (destroy_n first k s) (\<lambda>u. Thrown elem_exn)
      | Some x \<Rightarrow> and_then (construct_at ValueInit (padd first k) x s)
                    (\<lambda>u. uninit_value_loop T first (Suc k) n))"

definition uninitialized_value_construct_n :: "('a, 'g) elem_type \<Rightarrow> ptr \<Rightarrow> nat \<Rightarrow> 'a state \<Rightarrow> (unit, 'a state) outcome" where
  "uninitialized_value_construct_n T first n s = uninit_value_loop T first 0 n s"

text \<open>\<open>std::copy_n\<close> assigns by copy, from the front.\<close>

fun copy_n :: "('a, 'g) elem_type \<Rightarrow> ptr \<Rightarrow> nat \<Rightarrow> ptr \<Rightarrow> 'a state \<Rightarrow> (unit, 'a state) outcome" where
  "copy_n T first 0 result s = Done () s"
| "copy_n T first (Suc n) result s =
     and_then (copy_assign_at T first result s) (\<lambda>u. copy_n T (padd first 1) n (padd result 1))"

text \<open>
  \<open>std::move(first, last, d_first)\<close> assigns by move from the front,
  \<open>std::move_backward(first, last, d_last)\<close> from the back; \<open>n\<close> is \<open>last - first\<close>.
\<close>

fun std_move :: "('a, 'g) elem_type \<Rightarrow> ptr \<Rightarrow> nat \<Rightarrow> ptr \<Rightarrow> 'a state \<Rightarrow> (unit, 'a state) outcome" where
  "std_move T first 0 d_first s = Done () s"
| "std_move T first (Suc n) d_first s =
     and_then (move_assign_at T first d_first s) (\<lambda>u. std_move T (padd first 1) n (padd d_first 1))"

fun move_backward :: "('a, 'g) elem_type \<Rightarrow> ptr \<Rightarrow> nat \<Rightarrow> ptr \<Rightarrow> 'a state \<Rightarrow> (unit, 'a state) outcome" where
  "move_backward T first 0 d_last s = Done () s"
| "move_backward T first (Suc n) d_last s =
     (if snd d_last = 0 then Undefined
      else and_then (move_assign_at T (padd first n) (fst d_last, snd d_last - 1) s)
             (\<lambda>u. move_backward T first n (fst d_last, snd d_last - 1)))"

section \<open>RawMemory\<close>

definition Allocate :: "('a, 'g) elem_type \<Rightarrow> size_t \<Rightarrow> 'a state \<Rightarrow> (addr \<times> 'a state) option" where
  "Allocate T n s = (if n \<noteq> 0 then operator_new T (n * sizeof_T T) s else Some (0, s))"

definition Deallocate :: "addr \<Rightarrow> 'a state \<Rightarrow> (unit, 'a state) outcome" where
  "Deallocate buf s = operator_delete buf s"

definition RawMemory_default :: RawMemory where
  "RawMemory_default = \<lparr>m_buffer = 0, m_capacity = 0\<rparr>"

definition RawMemory_sized :: "('a, 'g) elem_type \<Rightarrow> size_t \<Rightarrow> 'a state \<Rightarrow> (RawMemory, 'a state) outcome" where
  "RawMemory_sized T capacity s =
     (case Allocate T capacity s of
        None \<Rightarrow> Thrown bad_alloc s
      | Some (p, s') \<Rightarrow> Done \<lparr>m_buffer = p, m_capacity = capacity\<rparr> s')"

definition RawMemory_dtor :: "RawMemory \<Rightarrow> 'a state \<Rightarrow> (unit, 'a state) outcome" where
  "RawMemory_dtor m s = Deallocate (m_buffer m) s"

text \<open>
  The move constructor and the move assignment give the new value of the destination and
  the value the source has afterwards. \<open>std::move\<close> of a pointer or of a \<open>size_t\<close>
  is a cast; the two assignments in each body read the source's members and write the
  destination's. The move assignment does not delete the block the destination held.
\<close>

definition RawMemory_move_ctor :: "RawMemory \<Rightarrow> RawMemory \<times> RawMemory" where
  "RawMemory_move_ctor other =
     (\<lparr>m_buffer = m_buffer other, m_capacity = m_capacity other\<rparr>, other)"

definition RawMemory_move_assign :: "RawMemory \<Rightarrow> RawMemory \<Rightarrow> RawMemory \<times> RawMemory" where
  "RawMemory_move_assign this rhs =
     (\<lparr>m_buffer = m_buffer rhs, m_capacity = m_capacity rhs\<rparr>, rhs)"

text \<open>\<open>operator+\<close> and \<open>operator[]\<close>, with their assertions.\<close>

definition RawMemory_plus :: "RawMemory \<Rightarrow> size_t \<Rightarrow> ptr option" where
  "RawMemory_plus m offset = (if offset \<le> m_capacity m then Some (m_buffer m, unat offset) else None)"

definition RawMemory_index :: "RawMemory \<Rightarrow> size_t \<Rightarrow> ptr option" where
  "RawMemory_index m index = (if index < m_capacity m then Some (m_buffer m, unat index) else None)"

definition RawMemory_Swap :: "RawMemory \<Rightarrow> RawMemory \<Rightarrow> RawMemory \<times> RawMemory" where
  "RawMemory_Swap this other =
     (\<lparr>m_buffer = m_buffer other, m_capacity = m_capacity other\<rparr>,
      \<lparr>m_buffer = m_buffer this, m_capacity = m_capacity this\<rparr>)"

definition GetAddress :: "RawMemory \<Rightarrow> ptr" where
  "GetAddress m = (m_buffer m, 0)"

definition RawMemory_Capacity :: "RawMemory \<Rightarrow> size_t" where
  "RawMemory_Capacity m = m_capacity m"

section \<open>Vector\<close>

definition set_vec :: "nat \<Rightarrow> Vector \<Rightarrow> 'a state \<Rightarrow> 'a state" where
  "set_vec this v s = s\<lparr>vecs := (vecs s)(this \<mapsto> v)\<rparr>"

text \<open>
  The relocation policy, written five times in the source as
  \<open>if constexpr (std::is_nothrow_move_constructible_v<T> || !std::is_copy_constructible_v<T>)\<close>.
\<close>

definition relocate :: "('a, 'g) elem_type \<Rightarrow> ptr \<Rightarrow> nat \<Rightarrow> ptr \<Rightarrow> 'a state \<Rightarrow> (unit, 'a state) outcome" where
  "relocate T first n result s =
     (if nothrow_move_constructible T \<or> \<not> copy_constructible T
      then uninitialized_move_n T first n result s
      else uninitialized_copy_n T first n result s)"

text \<open>
  The constructor call \<open>T(std::forward<Args>(args)...)\<close>: from arguments of its own
  (\<open>EmplaceBack\<close>, \<open>Emplace\<close>), from \<open>const T&\<close> (\<open>PushBack\<close>, \<open>Insert\<close>) or from
  \<open>T&&\<close>. \<open>construct_new\<close> builds the object in place at \<open>p\<close>, \<open>build\<close> builds a local.
\<close>

datatype ('a, 'g) init = ByArgs 'g | ByCopy 'a | ByMove 'a

definition build :: "('a, 'g) elem_type \<Rightarrow> ('a, 'g) init \<Rightarrow> 'a state \<Rightarrow> ('a, 'a state) outcome" where
  "build T i s =
     (case i of
        ByArgs g \<Rightarrow> (case construct T g of None \<Rightarrow> Thrown elem_exn s | Some x \<Rightarrow> Done x (emit Construct s))
      | ByCopy x \<Rightarrow> if copy_throws T x then Thrown elem_exn s else Done x (emit CopyCtor s)
      | ByMove x \<Rightarrow> if move_throws T x
                    then (if nothrow_move_constructible T then Undefined else Thrown elem_exn s)
                    else Done x (emit MoveCtor s))"

definition construct_new :: "('a, 'g) elem_type \<Rightarrow> ('a, 'g) init \<Rightarrow> ptr \<Rightarrow> 'a state \<Rightarrow> (unit, 'a state) outcome" where
  "construct_new T i p s =
     (case i of
        ByArgs g \<Rightarrow> (case construct T g of None \<Rightarrow> Thrown elem_exn s | Some x \<Rightarrow> construct_at Construct p x s)
      | ByCopy x \<Rightarrow> if copy_throws T x then Thrown elem_exn s else construct_at CopyCtor p x s
      | ByMove x \<Rightarrow> if move_throws T x
                    then (if nothrow_move_constructible T then Undefined else Thrown elem_exn s)
                    else construct_at MoveCtor p x s)"

text \<open>\<open>*dst = std::move(elem)\<close> for a local \<open>elem\<close> of value \<open>x\<close>.\<close>

definition move_assign_local :: "('a, 'g) elem_type \<Rightarrow> 'a \<Rightarrow> ptr \<Rightarrow> 'a state \<Rightarrow> (unit, 'a state) outcome" where
  "move_assign_local T x dst s =
     (case peek s dst of None \<Rightarrow> Undefined
      | Some y \<Rightarrow>
          if move_assign_throws T x then (if nothrow_move_assignable T then Undefined else Thrown elem_exn s)
          else Done () (emit MoveAsg (poke dst (Some x) s)))"

subsection \<open>Construction, destruction, iterators\<close>

text \<open>
  A constructor runs on storage that holds no \<open>Vector\<close> yet. The copy constructor and the
  destructor are also given on \<open>Vector\<close> values (\<open>copy_of\<close>, \<open>destroy_of\<close>), for the
  local \<open>rhs_copy\<close> of the copy assignment.
\<close>

definition Vector_default :: "nat \<Rightarrow> 'a state \<Rightarrow> (unit, 'a state) outcome" where
  "Vector_default this s =
     (case vecs s this of Some v \<Rightarrow> Undefined
      | None \<Rightarrow> Done () (set_vec this \<lparr>m_data = RawMemory_default, m_size = 0\<rparr> s))"

definition Vector_sized :: "('a, 'g) elem_type \<Rightarrow> size_t \<Rightarrow> nat \<Rightarrow> 'a state \<Rightarrow> (unit, 'a state) outcome" where
  "Vector_sized T n this s =
     (case vecs s this of Some v \<Rightarrow> Undefined
      | None \<Rightarrow>
          and_then (RawMemory_sized T n s) (\<lambda>d s1.
          and_then (unwind (uninitialized_value_construct_n T (GetAddress d) (unat n) s1) (RawMemory_dtor d))
            (\<lambda>u s2. Done () (set_vec this \<lparr>m_data = d, m_size = n\<rparr> s2))))"

definition copy_of :: "('a, 'g) elem_type \<Rightarrow> Vector \<Rightarrow> 'a state \<Rightarrow> (Vector, 'a state) outcome" where
  "copy_of T other s =
     and_then (RawMemory_sized T (m_size other) s) (\<lambda>d s1.
     and_then (unwind (uninitialized_copy_n T (GetAddress (m_data other)) (unat (m_size other)) (GetAddress d) s1)
                      (RawMemory_dtor d))
       (\<lambda>u s2. Done \<lparr>m_data = d, m_size = m_size other\<rparr> s2))"

definition Vector_copy_ctor :: "('a, 'g) elem_type \<Rightarrow> nat \<Rightarrow> nat \<Rightarrow> 'a state \<Rightarrow> (unit, 'a state) outcome" where
  "Vector_copy_ctor T other this s =
     (case vecs s this of Some v \<Rightarrow> Undefined
      | None \<Rightarrow>
          (case vecs s other of None \<Rightarrow> Undefined
           | Some ov \<Rightarrow> and_then (copy_of T ov s) (\<lambda>v s1. Done () (set_vec this v s1))))"

text \<open>
  \<open>other.data_ = RawMemory<T>()\<close> move-assigns from a temporary, whose destructor runs at
  the end of the statement.
\<close>

definition Vector_move_ctor :: "nat \<Rightarrow> nat \<Rightarrow> 'a state \<Rightarrow> (unit, 'a state) outcome" where
  "Vector_move_ctor other this s =
     (case vecs s this of Some v \<Rightarrow> Undefined
      | None \<Rightarrow>
          (case vecs s other of None \<Rightarrow> Undefined
           | Some ov \<Rightarrow>
               (let (d, od) = RawMemory_move_ctor (m_data ov);
                    s1 = set_vec this \<lparr>m_data = d, m_size = m_size ov\<rparr> s;
                    (od', tmp) = RawMemory_move_assign od RawMemory_default
                in and_then (RawMemory_dtor tmp (set_vec other \<lparr>m_data = od', m_size = m_size ov\<rparr> s1))
                     (\<lambda>u s2. Done () (set_vec other \<lparr>m_data = od', m_size = 0\<rparr> s2)))))"

definition destroy_of :: "Vector \<Rightarrow> 'a state \<Rightarrow> (unit, 'a state) outcome" where
  "destroy_of v s =
     and_then (destroy_n (GetAddress (m_data v)) (unat (m_size v)) s) (\<lambda>u. RawMemory_dtor (m_data v))"

definition Vector_dtor :: "nat \<Rightarrow> 'a state \<Rightarrow> (unit, 'a state) outcome" where
  "Vector_dtor this s =
     (case vecs s this of None \<Rightarrow> Undefined
      | Some v \<Rightarrow> and_then (destroy_of v s) (\<lambda>u s1. Done () (s1\<lparr>vecs := (vecs s1)(this := None)\<rparr>)))"

definition Vector_begin :: "Vector \<Rightarrow> ptr" where
  "Vector_begin v = GetAddress (m_data v)"

definition Vector_end :: "Vector \<Rightarrow> ptr option" where
  "Vector_end v = RawMemory_plus (m_data v) (m_size v)"

text \<open>\<open>pos - begin()\<close>, defined for two pointers into the same block.\<close>

definition index_of :: "Vector \<Rightarrow> ptr \<Rightarrow> size_t option" where
  "index_of v pos = (if fst pos = fst (Vector_begin v) then Some (word_of_nat (snd pos)) else None)"

definition Size :: "Vector \<Rightarrow> size_t" where
  "Size v = m_size v"

definition Capacity :: "Vector \<Rightarrow> size_t" where
  "Capacity v = RawMemory_Capacity (m_data v)"

definition Vector_index :: "Vector \<Rightarrow> size_t \<Rightarrow> ptr option" where
  "Vector_index v i = (if i < m_size v then RawMemory_index (m_data v) i else None)"

subsection \<open>Swap and assignment\<close>

definition swap_of :: "Vector \<Rightarrow> Vector \<Rightarrow> Vector \<times> Vector" where
  "swap_of v w =
     (let (d, e) = RawMemory_Swap (m_data v) (m_data w)
      in (\<lparr>m_data = d, m_size = m_size w\<rparr>, \<lparr>m_data = e, m_size = m_size v\<rparr>))"

definition Swap :: "nat \<Rightarrow> nat \<Rightarrow> 'a state \<Rightarrow> (unit, 'a state) outcome" where
  "Swap other this s =
     (case vecs s this of None \<Rightarrow> Undefined
      | Some v \<Rightarrow>
          (case vecs s other of None \<Rightarrow> Undefined
           | Some w \<Rightarrow> (let (v', w') = swap_of v w in Done () (set_vec other w' (set_vec this v' s)))))"

definition Vector_copy_assign :: "('a, 'g) elem_type \<Rightarrow> nat \<Rightarrow> nat \<Rightarrow> 'a state \<Rightarrow> (unit, 'a state) outcome" where
  "Vector_copy_assign T rhs this s =
     (if this \<noteq> rhs then
        (case vecs s this of None \<Rightarrow> Undefined
         | Some v \<Rightarrow>
             (case vecs s rhs of None \<Rightarrow> Undefined
              | Some r \<Rightarrow>
                  if Capacity r > RawMemory_Capacity (m_data v) then
                    and_then (copy_of T r s) (\<lambda>rhs_copy s1.
                      (let (v', rhs_copy') = swap_of v rhs_copy
                       in destroy_of rhs_copy' (set_vec this v' s1)))
                  else if m_size v > m_size r then
                    and_then (copy_n T (GetAddress (m_data r)) (unat (Size r)) (GetAddress (m_data v)) s) (\<lambda>u s1.
                    and_then (destroy_n (padd (GetAddress (m_data v)) (unat (Size r))) (unat (m_size v - Size r)) s1) (\<lambda>u s2.
                      Done () (set_vec this \<lparr>m_data = m_data v, m_size = Size r\<rparr> s2)))
                  else
                    and_then (copy_n T (GetAddress (m_data r)) (unat (m_size v)) (GetAddress (m_data v)) s) (\<lambda>u s1.
                    and_then (uninitialized_copy_n T (padd (GetAddress (m_data r)) (unat (m_size v)))
                                (unat (Size r - m_size v)) (padd (GetAddress (m_data v)) (unat (m_size v))) s1) (\<lambda>u s2.
                      Done () (set_vec this \<lparr>m_data = m_data v, m_size = Size r\<rparr> s2)))))
      else Done () s)"

definition Vector_move_assign :: "nat \<Rightarrow> nat \<Rightarrow> 'a state \<Rightarrow> (unit, 'a state) outcome" where
  "Vector_move_assign rhs this s =
     (case vecs s this of None \<Rightarrow> Undefined
      | Some v \<Rightarrow>
          (case vecs s rhs of None \<Rightarrow> Undefined
           | Some r \<Rightarrow>
               (let (d, rd) = RawMemory_move_assign (m_data v) (m_data r);
                    s1 = set_vec this \<lparr>m_data = d, m_size = m_size r\<rparr> s;
                    (rd', tmp) = RawMemory_move_assign rd RawMemory_default
                in and_then (RawMemory_dtor tmp (set_vec rhs \<lparr>m_data = rd', m_size = m_size r\<rparr> s1))
                     (\<lambda>u s2. Done () (set_vec rhs \<lparr>m_data = rd', m_size = 0\<rparr> s2)))))"

subsection \<open>Capacity and size\<close>

definition Reserve :: "('a, 'g) elem_type \<Rightarrow> size_t \<Rightarrow> nat \<Rightarrow> 'a state \<Rightarrow> (unit, 'a state) outcome" where
  "Reserve T new_capacity this s =
     (case vecs s this of None \<Rightarrow> Undefined
      | Some v \<Rightarrow>
          if new_capacity \<le> RawMemory_Capacity (m_data v) then Done () s
          else
            and_then (RawMemory_sized T new_capacity s) (\<lambda>new_data s1.
            and_then (unwind
                (and_then (relocate T (GetAddress (m_data v)) (unat (m_size v)) (GetAddress new_data) s1) (\<lambda>u.
                   destroy_n (GetAddress (m_data v)) (unat (m_size v))))
                (RawMemory_dtor new_data)) (\<lambda>u s2.
              (let (d, new_data') = RawMemory_Swap (m_data v) new_data
               in RawMemory_dtor new_data' (set_vec this \<lparr>m_data = d, m_size = m_size v\<rparr> s2)))))"

definition Resize :: "('a, 'g) elem_type \<Rightarrow> size_t \<Rightarrow> nat \<Rightarrow> 'a state \<Rightarrow> (unit, 'a state) outcome" where
  "Resize T new_size this s =
     (case vecs s this of None \<Rightarrow> Undefined
      | Some v \<Rightarrow>
          if new_size = m_size v then Done () s
          else if new_size < m_size v then
            and_then (destroy_n (padd (GetAddress (m_data v)) (unat new_size)) (unat (m_size v - new_size)) s)
              (\<lambda>u s1. Done () (set_vec this \<lparr>m_data = m_data v, m_size = new_size\<rparr> s1))
          else
            and_then (Reserve T new_size this s) (\<lambda>u s1.
              (case vecs s1 this of None \<Rightarrow> Undefined
               | Some v1 \<Rightarrow>
                   and_then (uninitialized_value_construct_n T (padd (GetAddress (m_data v1)) (unat (m_size v1)))
                               (unat (new_size - m_size v1)) s1)
                     (\<lambda>u s2. Done () (set_vec this \<lparr>m_data = m_data v1, m_size = new_size\<rparr> s2)))))"

subsection \<open>Appending\<close>

text \<open>
  \<open>data_ = std::move(new_data); new_data = RawMemory<T>();\<close> and, at the end of the
  block, the destructor of \<open>new_data\<close>: the result is the new value of \<open>data_\<close>.
\<close>

definition adopt :: "RawMemory \<Rightarrow> RawMemory \<Rightarrow> 'a state \<Rightarrow> (RawMemory, 'a state) outcome" where
  "adopt d new_data s =
     (let (d', new_data1) = RawMemory_move_assign d new_data;
          (new_data2, tmp) = RawMemory_move_assign new_data1 RawMemory_default
      in and_then (RawMemory_dtor tmp s) (\<lambda>u s1.
         and_then (RawMemory_dtor new_data2 s1) (\<lambda>u s2. Done d' s2)))"

text \<open>\<open>EmplaceBack\<close> returns the address of the new element.\<close>

definition EmplaceBack :: "('a, 'g) elem_type \<Rightarrow> ('a, 'g) init \<Rightarrow> nat \<Rightarrow> 'a state \<Rightarrow> (ptr, 'a state) outcome" where
  "EmplaceBack T args this s =
     (case vecs s this of None \<Rightarrow> Undefined
      | Some v \<Rightarrow>
          if m_size v = Capacity v then
            and_then (RawMemory_sized T (if m_size v = 0 then 1 else m_size v * 2) s) (\<lambda>new_data s1.
            and_then (unwind
                (case RawMemory_plus new_data (m_size v) of None \<Rightarrow> Undefined
                 | Some elem \<Rightarrow>
                     and_then (construct_new T args elem s1) (\<lambda>u s2.
                     and_then (relocate T (GetAddress (m_data v)) (unat (m_size v)) (GetAddress new_data) s2) (\<lambda>u s3.
                     and_then (destroy_n (GetAddress (m_data v)) (unat (m_size v)) s3) (\<lambda>u s4.
                       Done elem s4))))
                (RawMemory_dtor new_data)) (\<lambda>elem s4.
            and_then (adopt (m_data v) new_data s4) (\<lambda>d s5.
              Done elem (set_vec this \<lparr>m_data = d, m_size = m_size v + 1\<rparr> s5))))
          else
            (case RawMemory_plus (m_data v) (m_size v) of None \<Rightarrow> Undefined
             | Some elem \<Rightarrow>
                 and_then (construct_new T args elem s) (\<lambda>u s1.
                   Done elem (set_vec this \<lparr>m_data = m_data v, m_size = m_size v + 1\<rparr> s1))))"

text \<open>
  The bodies of \<open>PushBack(const T&)\<close> and \<open>PushBack(T&&)\<close> repeat that of
  \<open>EmplaceBack\<close> statement by statement, with \<open>T(value)\<close> and \<open>T(std::move(value))\<close>
  as the constructor call, and return nothing.
\<close>

definition PushBack_copy :: "('a, 'g) elem_type \<Rightarrow> 'a \<Rightarrow> nat \<Rightarrow> 'a state \<Rightarrow> (unit, 'a state) outcome" where
  "PushBack_copy T val this s = and_then (EmplaceBack T (ByCopy val) this s) (\<lambda>elem s1. Done () s1)"

definition PushBack_move :: "('a, 'g) elem_type \<Rightarrow> 'a \<Rightarrow> nat \<Rightarrow> 'a state \<Rightarrow> (unit, 'a state) outcome" where
  "PushBack_move T val this s = and_then (EmplaceBack T (ByMove val) this s) (\<lambda>elem s1. Done () s1)"

subsection \<open>Insertion and removal\<close>

text \<open>
  The local \<open>elem\<close> of the third branch of \<open>Emplace\<close> is destroyed when its block is
  left, normally or by an exception.
\<close>

definition end_of_local :: "('r, 'a state) outcome \<Rightarrow> ('r, 'a state) outcome" where
  "end_of_local m = (case m of Done r s \<Rightarrow> Done r (emit Dtor s)
                     | Thrown e s \<Rightarrow> Thrown e (emit Dtor s)
                     | Undefined \<Rightarrow> Undefined)"

definition Emplace :: "('a, 'g) elem_type \<Rightarrow> ptr \<Rightarrow> ('a, 'g) init \<Rightarrow> nat \<Rightarrow> 'a state \<Rightarrow> (ptr, 'a state) outcome" where
  "Emplace T pos args this s =
     (case vecs s this of None \<Rightarrow> Undefined
      | Some v \<Rightarrow>
          (case index_of v pos of None \<Rightarrow> Undefined
           | Some index \<Rightarrow>
               and_then
                 (if m_size v = index then
                    and_then (EmplaceBack T args this s) (\<lambda>elem s1. Done () s1)
                  else if m_size v = Capacity v then
                    and_then (RawMemory_sized T (if m_size v = 0 then 1 else m_size v * 2) s) (\<lambda>new_data s1.
                    and_then (unwind
                        (case RawMemory_plus new_data index of None \<Rightarrow> Undefined
                         | Some elem \<Rightarrow>
                             and_then (construct_new T args elem s1) (\<lambda>u s2.
                             and_then (relocate T (GetAddress (m_data v)) (unat index) (GetAddress new_data) s2) (\<lambda>u s3.
                               (case RawMemory_plus (m_data v) index of None \<Rightarrow> Undefined
                                | Some from \<Rightarrow>
                                    (case RawMemory_plus new_data (index + 1) of None \<Rightarrow> Undefined
                                     | Some to \<Rightarrow>
                                         and_then (relocate T from (unat (m_size v - index)) to s3) (\<lambda>u s4.
                                           destroy_n (GetAddress (m_data v)) (unat (m_size v)) s4))))))
                        (RawMemory_dtor new_data)) (\<lambda>u s5.
                    and_then (adopt (m_data v) new_data s5) (\<lambda>d s6.
                      Done () (set_vec this \<lparr>m_data = d, m_size = m_size v + 1\<rparr> s6))))
                  else
                    and_then (build T args s) (\<lambda>elem s1.
                      end_of_local
                        (case RawMemory_plus (m_data v) (m_size v) of None \<Rightarrow> Undefined
                         | Some back \<Rightarrow>
                             (case RawMemory_plus (m_data v) (m_size v - 1) of None \<Rightarrow> Undefined
                              | Some lastp \<Rightarrow>
                                  and_then (move_construct_at T lastp back s1) (\<lambda>u s2.
                                    if unat (m_size v - 1) < unat index then Undefined
                                    else
                                      and_then (move_backward T (padd (GetAddress (m_data v)) (unat index))
                                                  (unat (m_size v - 1) - unat index)
                                                  (padd (GetAddress (m_data v)) (unat (m_size v))) s2) (\<lambda>u s3.
                                        (case RawMemory_index (m_data v) index of None \<Rightarrow> Undefined
                                         | Some slot \<Rightarrow>
                                             and_then (move_assign_local T elem slot s3) (\<lambda>u s4.
                                               Done () (set_vec this \<lparr>m_data = m_data v, m_size = m_size v + 1\<rparr> s4)))))))))
                 (\<lambda>u s7.
                    (case vecs s7 this of None \<Rightarrow> Undefined
                     | Some v7 \<Rightarrow>
                         (case RawMemory_plus (m_data v7) index of None \<Rightarrow> Undefined
                          | Some it \<Rightarrow> Done it s7)))))"

definition Insert_copy :: "('a, 'g) elem_type \<Rightarrow> ptr \<Rightarrow> 'a \<Rightarrow> nat \<Rightarrow> 'a state \<Rightarrow> (ptr, 'a state) outcome" where
  "Insert_copy T pos val this s = Emplace T pos (ByCopy val) this s"

definition Insert_move :: "('a, 'g) elem_type \<Rightarrow> ptr \<Rightarrow> 'a \<Rightarrow> nat \<Rightarrow> 'a state \<Rightarrow> (ptr, 'a state) outcome" where
  "Insert_move T pos val this s = Emplace T pos (ByMove val) this s"

definition Erase :: "('a, 'g) elem_type \<Rightarrow> ptr \<Rightarrow> nat \<Rightarrow> 'a state \<Rightarrow> (ptr, 'a state) outcome" where
  "Erase T pos this s =
     (case vecs s this of None \<Rightarrow> Undefined
      | Some v \<Rightarrow>
          (case index_of v pos of None \<Rightarrow> Undefined
           | Some index \<Rightarrow>
               (case RawMemory_plus (m_data v) (index + 1) of None \<Rightarrow> Undefined
                | Some first \<Rightarrow>
                    (case RawMemory_plus (m_data v) (m_size v) of None \<Rightarrow> Undefined
                     | Some lastp \<Rightarrow>
                         (case RawMemory_plus (m_data v) index of None \<Rightarrow> Undefined
                          | Some d_first \<Rightarrow>
                              if snd lastp < snd first then Undefined
                              else
                                and_then (std_move T first (snd lastp - snd first) d_first s) (\<lambda>u s1.
                                  (case RawMemory_plus (m_data v) (m_size v - 1) of None \<Rightarrow> Undefined
                                   | Some p \<Rightarrow>
                                       and_then (destroy_at p s1) (\<lambda>u s2.
                                         (case RawMemory_plus (m_data v) index of None \<Rightarrow> Undefined
                                          | Some it \<Rightarrow>
                                              Done it (set_vec this \<lparr>m_data = m_data v, m_size = m_size v - 1\<rparr> s2))))))))))"

definition PopBack :: "nat \<Rightarrow> 'a state \<Rightarrow> (unit, 'a state) outcome" where
  "PopBack this s =
     (case vecs s this of None \<Rightarrow> Undefined
      | Some v \<Rightarrow>
          (case RawMemory_plus (m_data v) (m_size v - 1) of None \<Rightarrow> Undefined
           | Some p \<Rightarrow>
               and_then (destroy_at p s) (\<lambda>u s1.
                 Done () (set_vec this \<lparr>m_data = m_data v, m_size = m_size v - 1\<rparr> s1))))"

section \<open>What a caller observes\<close>

text \<open>
  The slots \<open>[0, size)\<close> of a vector's block, the capacity and size it reports, and the
  representation invariant: the size is at most the capacity, the block has one slot for
  each unit of capacity, and exactly the first \<open>size\<close> slots hold objects. A vector of
  capacity 0 holds \<open>nullptr\<close>.
\<close>

definition elems :: "'a state \<Rightarrow> Vector \<Rightarrow> 'a option list" where
  "elems s v = map (\<lambda>i. peek s (m_buffer (m_data v), i)) [0..<unat (m_size v)]"

definition contents :: "'a state \<Rightarrow> nat \<Rightarrow> 'a option list" where
  "contents s this = (case vecs s this of None \<Rightarrow> [] | Some v \<Rightarrow> elems s v)"

definition cap_of :: "'a state \<Rightarrow> nat \<Rightarrow> nat" where
  "cap_of s this = (case vecs s this of None \<Rightarrow> 0 | Some v \<Rightarrow> unat (Capacity v))"

definition size_of :: "'a state \<Rightarrow> nat \<Rightarrow> nat" where
  "size_of s this = (case vecs s this of None \<Rightarrow> 0 | Some v \<Rightarrow> unat (Size v))"

definition slots_ok :: "'a option list \<Rightarrow> nat \<Rightarrow> bool" where
  "slots_ok b n = (n \<le> length b \<and> list_all (\<lambda>x. x \<noteq> None) (take n b) \<and> list_all (\<lambda>x. x = None) (drop n b))"

definition vec_inv :: "'a state \<Rightarrow> Vector \<Rightarrow> bool" where
  "vec_inv s v =
     (m_size v \<le> Capacity v \<and>
      (if m_buffer (m_data v) = 0 then Capacity v = 0
       else case block s (m_buffer (m_data v)) of None \<Rightarrow> False
            | Some b \<Rightarrow> length b = unat (Capacity v) \<and> slots_ok b (unat (m_size v))))"

subsection \<open>A concrete element type and concrete states\<close>

text \<open>
  \<open>int_T\<close> behaves like \<open>int\<close>: four bytes, nothing throws, a move leaves the value
  where it was. \<open>fresh\<close> is the state before any allocation; \<open>one_vec\<close> holds one
  vector, object 0, of capacity 2, with the single element 7.
\<close>

definition int_T :: "(int, int) elem_type" where
  "int_T = \<lparr>sizeof_T = 4, nothrow_move_constructible = True, copy_constructible = True,
            nothrow_move_assignable = True, construct = Some, value_init = Some 0,
            copy_throws = (\<lambda>x. False), move_throws = (\<lambda>x. False),
            copy_assign_throws = (\<lambda>x. False), move_assign_throws = (\<lambda>x. False),
            moved_from = (\<lambda>x. x)\<rparr>"

definition fresh :: "int state" where
  "fresh = \<lparr>heap = [], limit = 1000, vecs = (\<lambda>i. None), trace = []\<rparr>"

definition one_vec :: "int state" where
  "one_vec = \<lparr>heap = [Some [Some 7, None]], limit = 1000,
              vecs = (\<lambda>i. if i = 0 then Some \<lparr>m_data = \<lparr>m_buffer = 1, m_capacity = 2\<rparr>, m_size = 1\<rparr> else None),
              trace = []\<rparr>"

definition full_vec :: "int state" where
  "full_vec = \<lparr>heap = [Some [Some 7]], limit = 1000,
              vecs = (\<lambda>i. if i = 0 then Some \<lparr>m_data = \<lparr>m_buffer = 1, m_capacity = 1\<rparr>, m_size = 1\<rparr> else None),
              trace = []\<rparr>"

text \<open>
  The shape of a state is what the element operations leave alone: which blocks exist and
  how long they are, the store of vectors, and the allocator's limit. \<open>final m s'\<close> says
  that the call \<open>m\<close> ended, normally or by an exception, in state \<open>s'\<close>; \<open>returned m\<close>
  that it ended normally.
\<close>

definition shape :: "'a state \<Rightarrow> nat option list \<times> (nat \<Rightarrow> Vector option) \<times> nat" where
  "shape s = (map (map_option length) (heap s), vecs s, limit s)"

definition final :: "('r, 's) outcome \<Rightarrow> 's \<Rightarrow> bool" where
  "final m s' = (case m of Done r s \<Rightarrow> s = s' | Thrown e s \<Rightarrow> s = s' | Undefined \<Rightarrow> False)"

definition returned :: "('r, 's) outcome \<Rightarrow> bool" where
  "returned m = (case m of Done r s \<Rightarrow> True | Thrown e s \<Rightarrow> False | Undefined \<Rightarrow> False)"

text \<open>
  \<open>grown v b\<close> is the vector \<open>v\<close> after one element was added: in a new block \<open>b\<close>
  of capacity \<open>size_ == 0 ? 1 : size_ * 2\<close> when it was full, in place otherwise.
  \<open>size_within\<close> says \<open>size \<le> capacity\<close> of every vector in the store, \<open>cap_after\<close>
  is the capacity a vector has after a call that returned, and \<open>two_vecs\<close> holds two
  vectors: object 0 of capacity 4 with the single element 7, object 1 of capacity 2 and
  empty.
\<close>

definition grown :: "Vector \<Rightarrow> addr \<Rightarrow> Vector" where
  "grown v b = (if m_size v = Capacity v
       then \<lparr>m_data = \<lparr>m_buffer = b, m_capacity = (if m_size v = 0 then 1 else m_size v * 2)\<rparr>, m_size = m_size v + 1\<rparr>
       else \<lparr>m_data = m_data v, m_size = m_size v + 1\<rparr>)"

definition size_within :: "'a state \<Rightarrow> bool" where
  "size_within s = (\<forall>i v. vecs s i = Some v \<longrightarrow> m_size v \<le> Capacity v)"

definition cap_after :: "('r, 'a state) outcome \<Rightarrow> nat \<Rightarrow> nat option" where
  "cap_after m this = (case m of Done r s \<Rightarrow> Some (cap_of s this) | Thrown e s \<Rightarrow> None | Undefined \<Rightarrow> None)"

definition two_vecs :: "int state" where
  "two_vecs = \<lparr>heap = [Some [Some 7, None, None, None], Some [None, None]], limit = 1000,
              vecs = (\<lambda>i. if i = 0 then Some \<lparr>m_data = \<lparr>m_buffer = 1, m_capacity = 4\<rparr>, m_size = 1\<rparr>
                          else if i = 1 then Some \<lparr>m_data = \<lparr>m_buffer = 2, m_capacity = 2\<rparr>, m_size = 0\<rparr>
                          else None),
              trace = []\<rparr>"

section \<open>Auxiliary lemmas\<close>

subsection \<open>Outcomes, states and shapes\<close>

lemma and_then_Done: "and_then m f = Done r s' \<longleftrightarrow> (\<exists>q s1. m = Done q s1 \<and> f q s1 = Done r s')"
  by (cases m) auto

lemma and_then_Thrown: "and_then m f = Thrown e s' \<longleftrightarrow> (m = Thrown e s' \<or> (\<exists>q s1. m = Done q s1 \<and> f q s1 = Thrown e s'))"
  by (cases m) auto

lemma unwind_Done [simp]: "unwind m d = Done r s' \<longleftrightarrow> m = Done r s'"
  by (cases m) (auto split: outcome.splits)

lemma unwind_Thrown: "unwind m d = Thrown e s' \<longleftrightarrow> (\<exists>s1 u. m = Thrown e s1 \<and> d s1 = Done u s')"
  by (cases m) (auto split: outcome.splits)

lemma vecs_emit [simp]: "vecs (emit e s) = vecs s" by (simp add: emit_def)
lemma heap_emit [simp]: "heap (emit e s) = heap s" by (simp add: emit_def)
lemma limit_emit [simp]: "limit (emit e s) = limit s" by (simp add: emit_def)
lemma trace_emit [simp]: "trace (emit e s) = trace s @ [e]" by (simp add: emit_def)
lemma block_emit [simp]: "block (emit e s) a = block s a" by (simp add: block_def)
lemma peek_emit [simp]: "peek (emit e s) p = peek s p" by (simp add: peek_def)
lemma in_block_emit [simp]: "in_block (emit e s) p = in_block s p" by (simp add: in_block_def)
lemma shape_emit [simp]: "shape (emit e s) = shape s" by (simp add: shape_def)

lemma vecs_poke [simp]: "vecs (poke p v s) = vecs s"
  by (simp add: poke_def set_block_def split: option.splits)
lemma limit_poke [simp]: "limit (poke p v s) = limit s"
  by (simp add: poke_def set_block_def split: option.splits)
lemma trace_poke [simp]: "trace (poke p v s) = trace s"
  by (simp add: poke_def set_block_def split: option.splits)
lemma length_heap_poke [simp]: "length (heap (poke p v s)) = length (heap s)"
  by (simp add: poke_def set_block_def split: option.splits)

lemma block_poke:
  "block (poke p v s) a = (if a = fst p then map_option (\<lambda>b. b[snd p := v]) (block s a) else block s a)"
  by (auto simp: poke_def set_block_def block_def nth_list_update split: option.splits)

lemma shape_poke [simp]: "shape (poke p v s) = shape s"
  by (auto simp: shape_def poke_def set_block_def block_def map_update list_update_same_conv split: option.splits if_splits)

lemma block_len_shape:
  assumes "shape s' = shape s"
  shows "map_option length (block s' a) = map_option length (block s a)"
proof -
  from assms have m: "map (map_option length) (heap s') = map (map_option length) (heap s)"
    by (simp add: shape_def)
  then have l: "length (heap s') = length (heap s)" by (rule map_eq_imp_length_eq)
  show ?thesis
  proof (cases "a = 0 \<or> length (heap s) < a")
    case True
    then show ?thesis using l by (auto simp: block_def)
  next
    case False
    then have i: "a - 1 < length (heap s)" by auto
    have "map (map_option length) (heap s') ! (a - 1) = map (map_option length) (heap s) ! (a - 1)"
      using m by simp
    then have "map_option length (heap s' ! (a - 1)) = map_option length (heap s ! (a - 1))"
      using i l by simp
    then show ?thesis using False l by (simp add: block_def)
  qed
qed

lemma in_block_alt: "in_block s p = (case map_option length (block s (fst p)) of None \<Rightarrow> False | Some n \<Rightarrow> snd p < n)"
  by (simp add: in_block_def split: option.splits)

lemma in_block_shape: "shape s' = shape s \<Longrightarrow> in_block s' p = in_block s p"
  using block_len_shape [of s' s "fst p"] by (simp add: in_block_alt)

lemma in_block_poke [simp]: "in_block (poke p v s) q = in_block s q"
  by (rule in_block_shape) simp

lemma peek_poke: "peek (poke p v s) q = (if q = p \<and> in_block s p then v else peek s q)"
  by (cases p; cases q) (auto simp: peek_def in_block_def block_poke split: option.splits)

lemma vecs_set_vec: "vecs (set_vec i v s) j = (if j = i then Some v else vecs s j)"
  by (simp add: set_vec_def)
lemma heap_set_vec [simp]: "heap (set_vec i v s) = heap s" by (simp add: set_vec_def)
lemma trace_set_vec [simp]: "trace (set_vec i v s) = trace s" by (simp add: set_vec_def)
lemma limit_set_vec [simp]: "limit (set_vec i v s) = limit s" by (simp add: set_vec_def)
lemma block_set_vec [simp]: "block (set_vec i v s) a = block s a" by (simp add: block_def)
lemma peek_set_vec [simp]: "peek (set_vec i v s) p = peek s p" by (simp add: peek_def)


lemma final_simps [simp]:
  "final (Done r s) s' = (s = s')" "final (Thrown e s) s' = (s = s')" "final Undefined s' = False"
  by (simp_all add: final_def)

lemma final_Done: "m = Done r s' \<Longrightarrow> final m s'" by simp
lemma final_Thrown: "m = Thrown e s' \<Longrightarrow> final m s'" by simp

lemma final_and_then:
  "final (and_then m f) s' \<longleftrightarrow> (\<exists>e. m = Thrown e s') \<or> (\<exists>r s1. m = Done r s1 \<and> final (f r s1) s')"
  by (cases m) auto

lemma construct_at_shape: "final (construct_at e p x s) s' \<Longrightarrow> shape s' = shape s"
  by (auto simp: construct_at_def split: if_splits)

lemma construct_at_in_block: "construct_at e p x s = Done u s' \<Longrightarrow> in_block s p"
  by (auto simp: construct_at_def split: if_splits)

lemma destroy_at_shape: "final (destroy_at p s) s' \<Longrightarrow> shape s' = shape s"
  by (auto simp: destroy_at_def split: option.splits)

lemma move_construct_at_shape: "final (move_construct_at T a b s) s' \<Longrightarrow> shape s' = shape s"
  by (auto simp: move_construct_at_def construct_at_def split: option.splits if_splits)

lemma move_construct_at_in_block: "move_construct_at T a b s = Done u s' \<Longrightarrow> in_block s b"
  by (auto simp: move_construct_at_def construct_at_def split: option.splits if_splits)

lemma copy_construct_at_shape: "final (copy_construct_at T a b s) s' \<Longrightarrow> shape s' = shape s"
  by (auto simp: copy_construct_at_def construct_at_def split: option.splits if_splits)

lemma copy_construct_at_in_block: "copy_construct_at T a b s = Done u s' \<Longrightarrow> in_block s b"
  by (auto simp: copy_construct_at_def construct_at_def split: option.splits if_splits)

lemma move_assign_at_shape: "final (move_assign_at T a b s) s' \<Longrightarrow> shape s' = shape s"
  by (auto simp: move_assign_at_def split: option.splits if_splits)

lemma copy_assign_at_shape: "final (copy_assign_at T a b s) s' \<Longrightarrow> shape s' = shape s"
  by (auto simp: copy_assign_at_def split: option.splits if_splits)

lemma move_assign_local_shape: "final (move_assign_local T x b s) s' \<Longrightarrow> shape s' = shape s"
  by (auto simp: move_assign_local_def split: option.splits if_splits)

lemma construct_new_shape: "final (construct_new T i p s) s' \<Longrightarrow> shape s' = shape s"
  by (auto simp: construct_new_def dest: construct_at_shape split: init.splits option.splits if_splits)

lemma construct_new_in_block: "construct_new T i p s = Done u s' \<Longrightarrow> in_block s p"
  by (auto simp: construct_new_def dest: construct_at_in_block split: init.splits option.splits if_splits)

lemma build_shape: "final (build T i s) s' \<Longrightarrow> shape s' = shape s"
  by (auto simp: build_def split: init.splits option.splits if_splits)

lemma destroy_n_shape: "final (destroy_n p n s) s' \<Longrightarrow> shape s' = shape s"
proof (induction n arbitrary: p s)
  case 0
  then show ?case by simp
next
  case (Suc n)
  from Suc.prems obtain s1 where d: "destroy_at p s = Done () s1"
    and f: "final (destroy_n (padd p 1) n s1) s'"
    by (auto simp: final_and_then destroy_at_def split: option.splits)
  from f have "shape s' = shape s1" by (rule Suc.IH)
  moreover have "shape s1 = shape s" by (rule destroy_at_shape [OF final_Done]) (rule d)
  ultimately show ?case by simp
qed

lemma uninit_copy_loop_shape: "final (uninit_copy_loop T a b k n s) s' \<Longrightarrow> shape s' = shape s"
proof (induction n arbitrary: k s)
  case 0
  then show ?case by simp
next
  case (Suc n)
  show ?case
  proof (cases "copy_construct_at T (padd a k) (padd b k) s")
    case (Done u s1)
    with Suc.prems have "final (uninit_copy_loop T a b (Suc k) n s1) s'" by simp
    then have "shape s' = shape s1" by (rule Suc.IH)
    moreover have "shape s1 = shape s" by (rule copy_construct_at_shape [OF final_Done]) (rule Done)
    ultimately show ?thesis by simp
  next
    case (Thrown e s1)
    with Suc.prems have "final (destroy_n b k s1) s'" by (cases "destroy_n b k s1") auto
    then have "shape s' = shape s1" by (rule destroy_n_shape)
    moreover have "shape s1 = shape s" by (rule copy_construct_at_shape [OF final_Thrown]) (rule Thrown)
    ultimately show ?thesis by simp
  next
    case Undefined
    with Suc.prems show ?thesis by simp
  qed
qed

lemma uninit_move_loop_shape: "final (uninit_move_loop T a b k n s) s' \<Longrightarrow> shape s' = shape s"
proof (induction n arbitrary: k s)
  case 0
  then show ?case by simp
next
  case (Suc n)
  show ?case
  proof (cases "move_construct_at T (padd a k) (padd b k) s")
    case (Done u s1)
    with Suc.prems have "final (uninit_move_loop T a b (Suc k) n s1) s'" by simp
    then have "shape s' = shape s1" by (rule Suc.IH)
    moreover have "shape s1 = shape s" by (rule move_construct_at_shape [OF final_Done]) (rule Done)
    ultimately show ?thesis by simp
  next
    case (Thrown e s1)
    with Suc.prems have "final (destroy_n b k s1) s'" by (cases "destroy_n b k s1") auto
    then have "shape s' = shape s1" by (rule destroy_n_shape)
    moreover have "shape s1 = shape s" by (rule move_construct_at_shape [OF final_Thrown]) (rule Thrown)
    ultimately show ?thesis by simp
  next
    case Undefined
    with Suc.prems show ?thesis by simp
  qed
qed

lemma uninit_value_loop_shape: "final (uninit_value_loop T a k n s) s' \<Longrightarrow> shape s' = shape s"
proof (induction n arbitrary: k s)
  case 0
  then show ?case by simp
next
  case (Suc n)
  show ?case
  proof (cases "value_init T")
    case None
    with Suc.prems have "final (destroy_n a k s) s'"
      by (cases "destroy_n a k s") auto
    then show ?thesis by (rule destroy_n_shape)
  next
    case (Some x)
    with Suc.prems obtain s1 where c: "construct_at ValueInit (padd a k) x s = Done () s1"
      and f: "final (uninit_value_loop T a (Suc k) n s1) s'"
      by (auto simp: final_and_then construct_at_def split: if_splits)
    from f have "shape s' = shape s1" by (rule Suc.IH)
    moreover have "shape s1 = shape s" by (rule construct_at_shape [OF final_Done]) (rule c)
    ultimately show ?thesis by simp
  qed
qed

lemma relocate_shape: "final (relocate T a n b s) s' \<Longrightarrow> shape s' = shape s"
  by (auto simp: relocate_def uninitialized_move_n_def uninitialized_copy_n_def
      dest: uninit_move_loop_shape uninit_copy_loop_shape split: if_splits)

lemma uninit_move_loop_in_block:
  "uninit_move_loop T a b k n s = Done u s' \<Longrightarrow> i < n \<Longrightarrow> in_block s (padd b (k + i))"
proof (induction n arbitrary: k s i)
  case 0
  then show ?case by simp
next
  case (Suc n)
  from Suc.prems(1) obtain s1 where m: "move_construct_at T (padd a k) (padd b k) s = Done () s1"
    and r: "uninit_move_loop T a b (Suc k) n s1 = Done u s'"
    by (auto simp: and_then_Done split: outcome.splits)
  have sh: "shape s1 = shape s" by (rule move_construct_at_shape [OF final_Done]) (rule m)
  show ?case
  proof (cases i)
    case 0
    then show ?thesis using move_construct_at_in_block [OF m] by simp
  next
    case (Suc j)
    with Suc.prems(2) have "j < n" by simp
    from Suc.IH [OF r this] have "in_block s1 (padd b (Suc k + j))" .
    then show ?thesis using Suc in_block_shape [OF sh] by simp
  qed
qed

lemma uninit_copy_loop_in_block:
  "uninit_copy_loop T a b k n s = Done u s' \<Longrightarrow> i < n \<Longrightarrow> in_block s (padd b (k + i))"
proof (induction n arbitrary: k s i)
  case 0
  then show ?case by simp
next
  case (Suc n)
  from Suc.prems(1) obtain s1 where m: "copy_construct_at T (padd a k) (padd b k) s = Done () s1"
    and r: "uninit_copy_loop T a b (Suc k) n s1 = Done u s'"
    by (auto simp: and_then_Done split: outcome.splits)
  have sh: "shape s1 = shape s" by (rule copy_construct_at_shape [OF final_Done]) (rule m)
  show ?case
  proof (cases i)
    case 0
    then show ?thesis using copy_construct_at_in_block [OF m] by simp
  next
    case (Suc j)
    with Suc.prems(2) have "j < n" by simp
    from Suc.IH [OF r this] have "in_block s1 (padd b (Suc k + j))" .
    then show ?thesis using Suc in_block_shape [OF sh] by simp
  qed
qed

lemma relocate_in_block:
  "relocate T a n b s = Done u s' \<Longrightarrow> i < n \<Longrightarrow> in_block s (padd b i)"
  using uninit_move_loop_in_block [of T a b 0 n s u s' i] uninit_copy_loop_in_block [of T a b 0 n s u s' i]
  by (auto simp: relocate_def uninitialized_move_n_def uninitialized_copy_n_def split: if_splits)

subsection \<open>Allocation and growth\<close>

lemma slots_le: "unat (c * z) div unat z \<le> unat (c :: 64 word)"
proof (cases "unat z = 0")
  case True
  then show ?thesis by simp
next
  case False
  have "unat (c * z) \<le> unat c * unat z"
    by (simp add: unat_word_ariths)
  then have "unat (c * z) div unat z \<le> (unat c * unat z) div unat z"
    by (rule div_le_mono)
  then show ?thesis using False by simp
qed

lemma RawMemory_sized_Done:
  assumes "RawMemory_sized T c s = Done nd s1"
  shows "m_capacity nd = c" and "vecs s1 = vecs s" and "trace s1 = trace s" and "limit s1 = limit s"
    and "c = 0 \<Longrightarrow> m_buffer nd = 0 \<and> s1 = s"
    and "c \<noteq> 0 \<Longrightarrow> m_buffer nd = Suc (length (heap s)) \<and>
            heap s1 = heap s @ [Some (replicate (unat (c * sizeof_T T) div unat (sizeof_T T)) None)]"
  using assms
  by (auto simp: RawMemory_sized_def Allocate_def operator_new_def split: option.splits if_splits)

lemma RawMemory_sized_Thrown:
  "RawMemory_sized T c s = Thrown e s1 \<Longrightarrow> e = bad_alloc \<and> s1 = s"
  by (auto simp: RawMemory_sized_def split: option.splits)

lemma RawMemory_sized_block:
  assumes "RawMemory_sized T c s = Done nd s1" and "c \<noteq> 0"
  shows "block s1 (m_buffer nd) = Some (replicate (unat (c * sizeof_T T) div unat (sizeof_T T)) None)"
    and "a \<le> length (heap s) \<Longrightarrow> block s1 a = block s a"
  using RawMemory_sized_Done(6) [OF assms]
  by (auto simp: block_def nth_append)

lemma alloc_in_block:
  assumes a: "RawMemory_sized T c s = Done nd s1" and sh: "shape s2 = shape s1"
    and i: "in_block s2 (m_buffer nd, j)"
  shows "j < unat c"
proof (cases "c = 0")
  case True
  with RawMemory_sized_Done(5) [OF a] have "m_buffer nd = 0" by simp
  with i in_block_shape [OF sh] show ?thesis by (simp add: in_block_def block_def)
next
  case False
  from i in_block_shape [OF sh] have "in_block s1 (m_buffer nd, j)" by simp
  with RawMemory_sized_block(1) [OF a False]
  have "j < unat (c * sizeof_T T) div unat (sizeof_T T)" by (simp add: in_block_def)
  with slots_le [of c "sizeof_T T"] show ?thesis by simp
qed

lemma double_no_wrap:
  fixes x :: "64 word"
  assumes "unat x < unat (if x = 0 then 1 else x * 2)"
  shows "unat (if x = 0 then 1 else x * 2) = max 1 (2 * unat x)"
proof (cases "x = 0")
  case True
  then show ?thesis by simp
next
  case False
  then have pos: "0 < unat x" by (simp add: unat_gt_0)
  have lt: "unat x < 2 ^ 64" using unsigned_less [of x, where ?'a = nat] by simp
  have m: "unat (x * 2) = (unat x * 2) mod 2 ^ 64" by (simp add: unat_word_ariths)
  show ?thesis
  proof (cases "unat x * 2 < 2 ^ 64")
    case True
    then show ?thesis using False m pos by simp
  next
    case False
    then have "(unat x * 2) mod 2 ^ 64 = unat x * 2 - 2 ^ 64"
      using lt by (simp add: mod_if)
    with assms \<open>x \<noteq> 0\<close> m lt show ?thesis by simp
  qed
qed

lemma adopt_Done [simp]: "adopt d nd s = Done nd s"
  by (simp add: adopt_def RawMemory_move_assign_def RawMemory_default_def RawMemory_dtor_def
      Deallocate_def operator_delete_def)

lemma shape_vecs: "shape s' = shape s \<Longrightarrow> vecs s' = vecs s"
  by (simp add: shape_def)

lemma EmplaceBack_grow_Done:
  assumes "vecs s this = Some v" and "m_size v = Capacity v"
    and "EmplaceBack T args this s = Done elem s'"
  obtains nd s1 s2 s3 s4 where
    "RawMemory_sized T (if m_size v = 0 then 1 else m_size v * 2) s = Done nd s1"
    "RawMemory_plus nd (m_size v) = Some elem"
    "construct_new T args elem s1 = Done () s2"
    "relocate T (GetAddress (m_data v)) (unat (m_size v)) (GetAddress nd) s2 = Done () s3"
    "destroy_n (GetAddress (m_data v)) (unat (m_size v)) s3 = Done () s4"
    "s' = set_vec this \<lparr>m_data = nd, m_size = m_size v + 1\<rparr> s4"
  using assms
  by (auto simp: EmplaceBack_def and_then_Done split: option.splits)

lemma EmplaceBack_inplace_Done:
  assumes "vecs s this = Some v" and "m_size v \<noteq> Capacity v"
    and "EmplaceBack T args this s = Done elem s'"
  obtains s1 where
    "RawMemory_plus (m_data v) (m_size v) = Some elem"
    "construct_new T args elem s = Done () s1"
    "s' = set_vec this \<lparr>m_data = m_data v, m_size = m_size v + 1\<rparr> s1"
  using assms
  by (auto simp: EmplaceBack_def and_then_Done split: option.splits)

lemma EmplaceBack_grow_cap:
  assumes v: "vecs s this = Some v" and full: "m_size v = Capacity v"
    and d: "EmplaceBack T args this s = Done elem s'"
  shows "\<exists>nd. vecs s' = (vecs s)(this \<mapsto> \<lparr>m_data = nd, m_size = m_size v + 1\<rparr>)
            \<and> m_capacity nd = (if m_size v = 0 then 1 else m_size v * 2)
            \<and> unat (m_size v) < unat (m_capacity nd)"
proof -
  from EmplaceBack_grow_Done [OF v full d] obtain nd s1 s2 s3 s4 where
    a: "RawMemory_sized T (if m_size v = 0 then 1 else m_size v * 2) s = Done nd s1"
    and p: "RawMemory_plus nd (m_size v) = Some elem"
    and c: "construct_new T args elem s1 = Done () s2"
    and r: "relocate T (GetAddress (m_data v)) (unat (m_size v)) (GetAddress nd) s2 = Done () s3"
    and dn: "destroy_n (GetAddress (m_data v)) (unat (m_size v)) s3 = Done () s4"
    and s': "s' = set_vec this \<lparr>m_data = nd, m_size = m_size v + 1\<rparr> s4"
    by blast
  have sh2: "shape s2 = shape s1" by (rule construct_new_shape [OF final_Done]) (rule c)
  have sh3: "shape s3 = shape s2" by (rule relocate_shape [OF final_Done]) (rule r)
  have sh4: "shape s4 = shape s3" by (rule destroy_n_shape [OF final_Done]) (rule dn)
  have vs: "vecs s4 = vecs s"
    using sh2 sh3 sh4 RawMemory_sized_Done(2) [OF a] by (simp add: shape_def)
  from p have e: "elem = (m_buffer nd, unat (m_size v))"
    by (auto simp: RawMemory_plus_def split: if_splits)
  have "in_block s1 (m_buffer nd, unat (m_size v))"
    using construct_new_in_block [OF c] e by simp
  from alloc_in_block [OF a refl this]
  have lt: "unat (m_size v) < unat (if m_size v = 0 then 1 else m_size v * 2)" .
  show ?thesis
    using s' vs RawMemory_sized_Done(1) [OF a] lt
    by (intro exI [of _ nd]) (auto simp: set_vec_def)
qed

lemma case_option_Done:
  "(case x of None \<Rightarrow> Undefined | Some y \<Rightarrow> f y) = Done r s \<longleftrightarrow> (\<exists>y. x = Some y \<and> f y = Done r s)"
  by (cases x) auto

lemma if_Undefined_Done:
  "(if c then Undefined else m) = Done r s \<longleftrightarrow> (\<not> c \<and> m = Done r s)"
  by auto

lemma Emplace_back_case:
  assumes "vecs s this = Some v" and "index_of v pos = Some index" and "m_size v = index"
    and "Emplace T pos args this s = Done it s'"
  obtains elem where "EmplaceBack T args this s = Done elem s'"
  using assms
  by (auto simp: Emplace_def and_then_Done case_option_Done if_Undefined_Done )

lemma Emplace_grow_case:
  assumes "vecs s this = Some v" and "index_of v pos = Some index" and "m_size v \<noteq> index"
    and "m_size v = Capacity v"
    and "Emplace T pos args this s = Done it s'"
  obtains nd elem src dst s1 s2 s3 s4 s5 where
    "RawMemory_sized T (if m_size v = 0 then 1 else m_size v * 2) s = Done nd s1"
    "RawMemory_plus nd index = Some elem"
    "construct_new T args elem s1 = Done () s2"
    "relocate T (GetAddress (m_data v)) (unat index) (GetAddress nd) s2 = Done () s3"
    "RawMemory_plus (m_data v) index = Some src"
    "RawMemory_plus nd (index + 1) = Some dst"
    "relocate T src (unat (m_size v - index)) dst s3 = Done () s4"
    "destroy_n (GetAddress (m_data v)) (unat (m_size v)) s4 = Done () s5"
    "s' = set_vec this \<lparr>m_data = nd, m_size = m_size v + 1\<rparr> s5"
  using assms
  by (auto simp: Emplace_def and_then_Done case_option_Done if_Undefined_Done )

lemma end_of_local_Done: "end_of_local m = Done r s' \<longleftrightarrow> (\<exists>s1. m = Done r s1 \<and> s' = emit Dtor s1)"
  by (cases m) (auto simp: end_of_local_def)

lemma Emplace_inplace_case:
  assumes "vecs s this = Some v" and "index_of v pos = Some index" and "m_size v \<noteq> index"
    and "m_size v \<noteq> Capacity v"
    and "Emplace T pos args this s = Done it s'"
  obtains x bk lastp slot s1 s2 s3 s4 where
    "build T args s = Done x s1"
    "RawMemory_plus (m_data v) (m_size v) = Some bk"
    "RawMemory_plus (m_data v) (m_size v - 1) = Some lastp"
    "move_construct_at T lastp bk s1 = Done () s2"
    "unat index \<le> unat (m_size v - 1)"
    "move_backward T (padd (GetAddress (m_data v)) (unat index)) (unat (m_size v - 1) - unat index)
        (padd (GetAddress (m_data v)) (unat (m_size v))) s2 = Done () s3"
    "RawMemory_index (m_data v) index = Some slot"
    "move_assign_local T x slot s3 = Done () s4"
    "s' = emit Dtor (set_vec this \<lparr>m_data = m_data v, m_size = m_size v + 1\<rparr> s4)"
  using assms
  by (auto simp: Emplace_def and_then_Done case_option_Done if_Undefined_Done end_of_local_Done )

lemma unat_Suc_less:
  fixes index :: "64 word"
  assumes lt: "index < n"
  shows "unat (index + 1) = Suc (unat index)"
proof -
  from lt have "index \<noteq> - 1" by (metis word_order.extremum_strict)
  then have "index + 1 \<noteq> 0" by (metis add.commute add_eq_0_iff)
  then show ?thesis by (simp add: unatSuc add.commute)
qed


lemma Emplace_index:
  assumes "vecs s this = Some v" and "Emplace T pos args this s = Done it s'"
  obtains index where "index_of v pos = Some index"
  using assms by (cases "index_of v pos") (simp_all add: Emplace_def)

lemma RawMemory_plus_Some:
  "RawMemory_plus m off = Some p \<longleftrightarrow> (off \<le> m_capacity m \<and> p = (m_buffer m, unat off))"
  by (auto simp: RawMemory_plus_def)

lemma Emplace_grow_cap:
  assumes v: "vecs s this = Some v" and ix: "index_of v pos = Some index" and ne: "m_size v \<noteq> index"
    and full: "m_size v = Capacity v"
    and d: "Emplace T pos args this s = Done it s'"
  shows "\<exists>nd. vecs s' = (vecs s)(this \<mapsto> \<lparr>m_data = nd, m_size = m_size v + 1\<rparr>)
            \<and> m_capacity nd = (if m_size v = 0 then 1 else m_size v * 2)
            \<and> unat (m_size v) < unat (m_capacity nd) \<and> index < m_size v"
proof (rule Emplace_grow_case [OF v ix ne full d])
  fix nd elem src dst s1 s2 s3 s4 s5
  assume a: "RawMemory_sized T (if m_size v = 0 then 1 else m_size v * 2) s = Done nd s1"
    and c: "construct_new T args elem s1 = Done () s2"
    and r1: "relocate T (GetAddress (m_data v)) (unat index) (GetAddress nd) s2 = Done () s3"
    and src: "RawMemory_plus (m_data v) index = Some src"
    and dst: "RawMemory_plus nd (index + 1) = Some dst"
    and r2: "relocate T src (unat (m_size v - index)) dst s3 = Done () s4"
    and dn: "destroy_n (GetAddress (m_data v)) (unat (m_size v)) s4 = Done () s5"
    and s': "s' = set_vec this \<lparr>m_data = nd, m_size = m_size v + 1\<rparr> s5"
  have sh2: "shape s2 = shape s1" by (rule construct_new_shape [OF final_Done]) (rule c)
  have sh3: "shape s3 = shape s2" by (rule relocate_shape [OF final_Done]) (rule r1)
  have sh4: "shape s4 = shape s3" by (rule relocate_shape [OF final_Done]) (rule r2)
  have sh5: "shape s5 = shape s4" by (rule destroy_n_shape [OF final_Done]) (rule dn)
  have vs: "vecs s5 = vecs s"
    using sh2 sh3 sh4 sh5 RawMemory_sized_Done(2) [OF a] by (simp add: shape_def)
  from src full have le: "index \<le> m_size v"
    by (simp add: RawMemory_plus_Some Capacity_def RawMemory_Capacity_def)
  with ne have lt: "index < m_size v" by simp
  then have u1: "unat (index + 1) = Suc (unat index)" by (rule unat_Suc_less)
  have u2: "unat (m_size v - index) = unat (m_size v) - unat index"
    using le by (rule unat_sub)
  have u3: "unat index < unat (m_size v)" using lt by (simp add: word_less_nat_alt)
  from dst have dst': "dst = (m_buffer nd, Suc (unat index))"
    by (simp add: RawMemory_plus_Some u1)
  have "unat (m_size v) - unat index - 1 < unat (m_size v - index)" using u2 u3 by simp
  from relocate_in_block [OF r2 this]
  have "in_block s3 (m_buffer nd, unat (m_size v))"
    using dst' u3 by (simp add: padd_def)
  moreover have "shape s3 = shape s1" using sh2 sh3 by simp
  ultimately have "unat (m_size v) < unat (if m_size v = 0 then 1 else m_size v * 2)"
    by (rule alloc_in_block [OF a, rotated])
  then show ?thesis
    using s' vs RawMemory_sized_Done(1) [OF a] lt
    by (intro exI [of _ nd]) (auto simp: set_vec_def)
qed

lemma cap_of_upd:
  "vecs s' = (vecs s)(this \<mapsto> \<lparr>m_data = nd, m_size = n\<rparr>) \<Longrightarrow> cap_of s' this = unat (m_capacity nd)"
  by (simp add: cap_of_def Capacity_def RawMemory_Capacity_def)

lemma EmplaceBack_doubles:
  assumes v: "vecs s this = Some v" and full: "m_size v = Capacity v"
    and d: "EmplaceBack T args this s = Done elem s'"
  shows "cap_of s' this = max 1 (2 * cap_of s this)"
proof -
  from EmplaceBack_grow_cap [OF v full d] obtain nd where
    vs: "vecs s' = (vecs s)(this \<mapsto> \<lparr>m_data = nd, m_size = m_size v + 1\<rparr>)"
    and c: "m_capacity nd = (if m_size v = 0 then 1 else m_size v * 2)"
    and lt: "unat (m_size v) < unat (m_capacity nd)" by blast
  from lt c have "unat (m_capacity nd) = max 1 (2 * unat (m_size v))"
    using double_no_wrap [of "m_size v"] by simp
  then show ?thesis using cap_of_upd [OF vs] v full by (simp add: cap_of_def)
qed

lemma Emplace_doubles:
  assumes v: "vecs s this = Some v" and full: "m_size v = Capacity v"
    and d: "Emplace T pos args this s = Done it s'"
  shows "cap_of s' this = max 1 (2 * cap_of s this)"
proof -
  from Emplace_index [OF v d] obtain index where ix: "index_of v pos = Some index" by blast
  show ?thesis
  proof (cases "m_size v = index")
    case True
    from Emplace_back_case [OF v ix True d] obtain elem where
      "EmplaceBack T args this s = Done elem s'" by blast
    then show ?thesis by (rule EmplaceBack_doubles [OF v full])
  next
    case False
    from Emplace_grow_cap [OF v ix False full d] obtain nd where
      vs: "vecs s' = (vecs s)(this \<mapsto> \<lparr>m_data = nd, m_size = m_size v + 1\<rparr>)"
      and c: "m_capacity nd = (if m_size v = 0 then 1 else m_size v * 2)"
      and lt: "unat (m_size v) < unat (m_capacity nd)" by blast
    from lt c have "unat (m_capacity nd) = max 1 (2 * unat (m_size v))"
      using double_no_wrap [of "m_size v"] by simp
    then show ?thesis using cap_of_upd [OF vs] v full by (simp add: cap_of_def)
  qed
qed

lemma PushBack_copy_Done:
  "PushBack_copy T x this s = Done u s' \<longleftrightarrow> (\<exists>elem. EmplaceBack T (ByCopy x) this s = Done elem s')"
  by (auto simp: PushBack_copy_def and_then_Done)

lemma PushBack_move_Done:
  "PushBack_move T x this s = Done u s' \<longleftrightarrow> (\<exists>elem. EmplaceBack T (ByMove x) this s = Done elem s')"
  by (auto simp: PushBack_move_def and_then_Done)

lemma returnedD: "returned m \<Longrightarrow> \<exists>r s. m = Done r s"
  by (cases m) (auto simp: returned_def)


lemmas prim_defs = Capacity_def RawMemory_Capacity_def RawMemory_sized_def Allocate_def
  operator_new_def RawMemory_plus_def RawMemory_index_def construct_new_def construct_at_def
  in_block_def block_def poke_def set_block_def emit_def relocate_def uninitialized_move_n_def
  uninitialized_copy_n_def uninitialized_value_construct_n_def move_construct_at_def
  copy_construct_at_def copy_assign_at_def peek_def GetAddress_def padd_def destroy_at_def
  set_vec_def build_def move_assign_at_def move_assign_local_def RawMemory_dtor_def
  Deallocate_def operator_delete_def index_of_def Vector_begin_def end_of_local_def
  RawMemory_Swap_def RawMemory_move_assign_def RawMemory_move_ctor_def RawMemory_default_def

lemma copy_n_shape: "final (copy_n T a n b s) s' \<Longrightarrow> shape s' = shape s"
proof (induction n arbitrary: a b s)
  case 0
  then show ?case by simp
next
  case (Suc n)
  from Suc.prems consider (thr) e where "copy_assign_at T a b s = Thrown e s'"
    | (ok) s1 where "copy_assign_at T a b s = Done () s1" "final (copy_n T (padd a 1) n (padd b 1) s1) s'"
    by (auto simp: final_and_then)
  then show ?case
  proof cases
    case thr
    then show ?thesis by (rule copy_assign_at_shape [OF final_Thrown])
  next
    case ok
    from ok(2) have "shape s' = shape s1" by (rule Suc.IH)
    moreover have "shape s1 = shape s" by (rule copy_assign_at_shape [OF final_Done]) (rule ok(1))
    ultimately show ?thesis by simp
  qed
qed

lemma std_move_shape: "final (std_move T a n b s) s' \<Longrightarrow> shape s' = shape s"
proof (induction n arbitrary: a b s)
  case 0
  then show ?case by simp
next
  case (Suc n)
  from Suc.prems consider (thr) e where "move_assign_at T a b s = Thrown e s'"
    | (ok) s1 where "move_assign_at T a b s = Done () s1" "final (std_move T (padd a 1) n (padd b 1) s1) s'"
    by (auto simp: final_and_then)
  then show ?case
  proof cases
    case thr
    then show ?thesis by (rule move_assign_at_shape [OF final_Thrown])
  next
    case ok
    from ok(2) have "shape s' = shape s1" by (rule Suc.IH)
    moreover have "shape s1 = shape s" by (rule move_assign_at_shape [OF final_Done]) (rule ok(1))
    ultimately show ?thesis by simp
  qed
qed

lemma move_backward_shape: "final (move_backward T a n b s) s' \<Longrightarrow> shape s' = shape s"
proof (induction n arbitrary: b s)
  case 0
  then show ?case by simp
next
  case (Suc n)
  let ?d = "(fst b, snd b - 1)"
  from Suc.prems consider (thr) e where "move_assign_at T (padd a n) ?d s = Thrown e s'"
    | (ok) s1 where "move_assign_at T (padd a n) ?d s = Done () s1" "final (move_backward T a n ?d s1) s'"
    by (auto simp: final_and_then split: if_splits)
  then show ?case
  proof cases
    case thr
    then show ?thesis by (rule move_assign_at_shape [OF final_Thrown])
  next
    case ok
    from ok(2) have "shape s' = shape s1" by (rule Suc.IH)
    moreover have "shape s1 = shape s" by (rule move_assign_at_shape [OF final_Done]) (rule ok(1))
    ultimately show ?thesis by simp
  qed
qed

lemma vecs_set_block [simp]: "vecs (set_block a b s) = vecs s" by (simp add: set_block_def)
lemma trace_set_block [simp]: "trace (set_block a b s) = trace s" by (simp add: set_block_def)
lemma limit_set_block [simp]: "limit (set_block a b s) = limit s" by (simp add: set_block_def)

lemma RawMemory_dtor_vecs: "final (RawMemory_dtor m s) s' \<Longrightarrow> vecs s' = vecs s"
  by (auto simp: RawMemory_dtor_def Deallocate_def operator_delete_def split: if_splits option.splits)

lemma RawMemory_dtor_trace: "final (RawMemory_dtor m s) s' \<Longrightarrow> trace s' = trace s"
  by (auto simp: RawMemory_dtor_def Deallocate_def operator_delete_def split: if_splits option.splits)

lemma RawMemory_dtor_not_Thrown [simp]: "RawMemory_dtor m s \<noteq> Thrown e s'"
  by (auto simp: RawMemory_dtor_def Deallocate_def operator_delete_def split: if_splits option.splits)

lemma destroy_of_vecs: "final (destroy_of v s) s' \<Longrightarrow> vecs s' = vecs s"
proof -
  assume "final (destroy_of v s) s'"
  then consider (thr) e where "destroy_n (GetAddress (m_data v)) (unat (m_size v)) s = Thrown e s'"
    | (ok) s1 where "destroy_n (GetAddress (m_data v)) (unat (m_size v)) s = Done () s1"
        "final (RawMemory_dtor (m_data v) s1) s'"
    by (auto simp: destroy_of_def final_and_then)
  then show ?thesis
  proof cases
    case thr
    then show ?thesis using destroy_n_shape [OF final_Thrown] shape_vecs by blast
  next
    case ok
    from destroy_n_shape [OF final_Done, OF ok(1)] have "vecs s1 = vecs s" by (rule shape_vecs)
    with RawMemory_dtor_vecs [OF ok(2)] show ?thesis by simp
  qed
qed

lemma uninitialized_copy_n_shape: "final (uninitialized_copy_n T a n b s) s' \<Longrightarrow> shape s' = shape s"
  by (simp add: uninitialized_copy_n_def uninit_copy_loop_shape)

lemma uninitialized_value_construct_n_shape:
  "final (uninitialized_value_construct_n T a n s) s' \<Longrightarrow> shape s' = shape s"
  by (simp add: uninitialized_value_construct_n_def uninit_value_loop_shape)

lemma copy_of_Done:
  assumes "copy_of T ov s = Done v s'"
  shows "vecs s' = vecs s" and "m_size v = m_size ov" and "m_capacity (m_data v) = m_size ov"
proof -
  from assms obtain d s1 where a: "RawMemory_sized T (m_size ov) s = Done d s1"
    and c: "uninitialized_copy_n T (GetAddress (m_data ov)) (unat (m_size ov)) (GetAddress d) s1 = Done () s'"
    and v: "v = \<lparr>m_data = d, m_size = m_size ov\<rparr>"
    by (auto simp: copy_of_def and_then_Done)
  from uninitialized_copy_n_shape [OF final_Done, OF c] have "vecs s' = vecs s1" by (rule shape_vecs)
  then show "vecs s' = vecs s" using RawMemory_sized_Done(2) [OF a] by simp
  show "m_size v = m_size ov" using v by simp
  show "m_capacity (m_data v) = m_size ov" using v RawMemory_sized_Done(1) [OF a] by simp
qed

lemma Vector_default_store:
  "Vector_default this s = Done u s' \<Longrightarrow>
     vecs s' = (vecs s)(this \<mapsto> \<lparr>m_data = \<lparr>m_buffer = 0, m_capacity = 0\<rparr>, m_size = 0\<rparr>)"
  by (auto simp: Vector_default_def set_vec_def RawMemory_default_def split: option.splits)

lemma Vector_sized_store:
  assumes "Vector_sized T n this s = Done u s'"
  shows "\<exists>b. vecs s' = (vecs s)(this \<mapsto> \<lparr>m_data = \<lparr>m_buffer = b, m_capacity = n\<rparr>, m_size = n\<rparr>)"
proof -
  from assms obtain d s1 s2 where a: "RawMemory_sized T n s = Done d s1"
    and c: "uninitialized_value_construct_n T (GetAddress d) (unat n) s1 = Done () s2"
    and s': "s' = set_vec this \<lparr>m_data = d, m_size = n\<rparr> s2"
    by (auto simp: Vector_sized_def and_then_Done split: option.splits)
  from uninitialized_value_construct_n_shape [OF final_Done, OF c] have "vecs s2 = vecs s1" by (rule shape_vecs)
  then have "vecs s2 = vecs s" using RawMemory_sized_Done(2) [OF a] by simp
  moreover have "d = \<lparr>m_buffer = m_buffer d, m_capacity = n\<rparr>" using RawMemory_sized_Done(1) [OF a] by simp
  ultimately show ?thesis using s' by (auto simp: set_vec_def intro!: exI [of _ "m_buffer d"])
qed

lemma Vector_copy_ctor_store:
  assumes "vecs s other = Some ov" and "Vector_copy_ctor T other this s = Done u s'"
  shows "\<exists>b. vecs s' = (vecs s)(this \<mapsto> \<lparr>m_data = \<lparr>m_buffer = b, m_capacity = m_size ov\<rparr>, m_size = m_size ov\<rparr>)"
proof -
  from assms obtain v s1 where c: "copy_of T ov s = Done v s1" and s': "s' = set_vec this v s1"
    by (auto simp: Vector_copy_ctor_def and_then_Done split: option.splits)
  have "v = \<lparr>m_data = \<lparr>m_buffer = m_buffer (m_data v), m_capacity = m_size ov\<rparr>, m_size = m_size ov\<rparr>"
    using copy_of_Done(2,3) [OF c] by simp
  then show ?thesis using s' copy_of_Done(1) [OF c]
    by (auto simp: set_vec_def intro!: exI [of _ "m_buffer (m_data v)"])
qed

lemma Vector_move_ctor_store:
  assumes "vecs s other = Some ov" and "Vector_move_ctor other this s = Done u s'"
  shows "vecs s' = (vecs s)(this \<mapsto> ov, other \<mapsto> \<lparr>m_data = \<lparr>m_buffer = 0, m_capacity = 0\<rparr>, m_size = 0\<rparr>)"
  using assms
  by (auto simp: Vector_move_ctor_def RawMemory_move_ctor_def RawMemory_move_assign_def
      RawMemory_default_def RawMemory_dtor_def Deallocate_def operator_delete_def set_vec_def
      split: option.splits)

lemma Vector_move_assign_store:
  assumes "vecs s rhs = Some r" and "Vector_move_assign rhs this s = Done u s'"
  shows "vecs s' = (vecs s)(this \<mapsto> r, rhs \<mapsto> \<lparr>m_data = \<lparr>m_buffer = 0, m_capacity = 0\<rparr>, m_size = 0\<rparr>)"
  using assms
  by (auto simp: Vector_move_assign_def RawMemory_move_assign_def
      RawMemory_default_def RawMemory_dtor_def Deallocate_def operator_delete_def set_vec_def
      split: option.splits)

lemma Swap_store:
  assumes "vecs s this = Some v" and "vecs s other = Some w" and "Swap other this s = Done u s'"
  shows "vecs s' = (vecs s)(this \<mapsto> w, other \<mapsto> v)"
  using assms
  by (auto simp: Swap_def swap_of_def RawMemory_Swap_def set_vec_def)

lemma RawMemory_Swap_eq: "RawMemory_Swap a b = (b, a)"
  by (cases a; cases b) (simp add: RawMemory_Swap_def)

lemma RawMemory_move_assign_eq: "RawMemory_move_assign a b = (b, b)"
  by (cases a; cases b) (simp add: RawMemory_move_assign_def)

lemma RawMemory_move_ctor_eq: "RawMemory_move_ctor b = (b, b)"
  by (cases b) (simp add: RawMemory_move_ctor_def)

lemma swap_of_eq: "swap_of v w = (w, v)"
  by (cases v; cases w) (simp add: swap_of_def RawMemory_Swap_eq)

lemma Vector_copy_assign_store:
  assumes v: "vecs s this = Some v" and r: "vecs s rhs = Some r" and ne: "this \<noteq> rhs"
    and d: "Vector_copy_assign T rhs this s = Done u s'"
  shows "\<exists>b. vecs s' = (vecs s)(this \<mapsto>
            (if Capacity r > Capacity v
             then \<lparr>m_data = \<lparr>m_buffer = b, m_capacity = m_size r\<rparr>, m_size = m_size r\<rparr>
             else \<lparr>m_data = m_data v, m_size = m_size r\<rparr>))"
proof (cases "Capacity r > Capacity v")
  case True
  with d v r ne obtain rhs_copy s1 where c: "copy_of T r s = Done rhs_copy s1"
    and f: "destroy_of v (set_vec this rhs_copy s1) = Done () s'"
    by (auto simp: Vector_copy_assign_def Capacity_def and_then_Done swap_of_eq)
  have "vecs s' = vecs (set_vec this rhs_copy s1)"
    by (rule destroy_of_vecs [OF final_Done]) (rule f)
  moreover have "rhs_copy = \<lparr>m_data = \<lparr>m_buffer = m_buffer (m_data rhs_copy), m_capacity = m_size r\<rparr>, m_size = m_size r\<rparr>"
    using copy_of_Done(2,3) [OF c] by simp
  ultimately show ?thesis using True copy_of_Done(1) [OF c]
    by (auto simp: set_vec_def intro!: exI [of _ "m_buffer (m_data rhs_copy)"])
next
  case False
  show ?thesis
  proof (cases "m_size v > m_size r")
    case True
    with False d v r ne obtain s1 s2 where
      c: "copy_n T (GetAddress (m_data r)) (unat (Size r)) (GetAddress (m_data v)) s = Done () s1"
      and dn: "destroy_n (padd (GetAddress (m_data v)) (unat (Size r))) (unat (m_size v - Size r)) s1 = Done () s2"
      and s': "s' = set_vec this \<lparr>m_data = m_data v, m_size = Size r\<rparr> s2"
      by (auto simp: Vector_copy_assign_def Capacity_def and_then_Done)
    have "vecs s2 = vecs s"
      using copy_n_shape [OF final_Done, OF c] destroy_n_shape [OF final_Done, OF dn]
      by (simp add: shape_def)
    then show ?thesis using s' False by (simp add: set_vec_def Size_def)
  next
    case nb: False
    with False d v r ne obtain s1 s2 where
      c: "copy_n T (GetAddress (m_data r)) (unat (m_size v)) (GetAddress (m_data v)) s = Done () s1"
      and uc: "uninitialized_copy_n T (padd (GetAddress (m_data r)) (unat (m_size v)))
                 (unat (Size r - m_size v)) (padd (GetAddress (m_data v)) (unat (m_size v))) s1 = Done () s2"
      and s': "s' = set_vec this \<lparr>m_data = m_data v, m_size = Size r\<rparr> s2"
      by (auto simp: Vector_copy_assign_def Capacity_def and_then_Done)
    have "vecs s2 = vecs s"
      using copy_n_shape [OF final_Done, OF c] uninitialized_copy_n_shape [OF final_Done, OF uc]
      by (simp add: shape_def)
    then show ?thesis using s' False by (simp add: set_vec_def Size_def)
  qed
qed

lemma Reserve_noop:
  "vecs s this = Some v \<Longrightarrow> new_capacity \<le> Capacity v \<Longrightarrow> Reserve T new_capacity this s = Done () s"
  by (simp add: Reserve_def Capacity_def)

lemma Reserve_grow_case:
  assumes "vecs s this = Some v" and "\<not> new_capacity \<le> Capacity v"
    and "Reserve T new_capacity this s = Done u s'"
  obtains new_data s1 s2 s3 where
    "RawMemory_sized T new_capacity s = Done new_data s1"
    "relocate T (GetAddress (m_data v)) (unat (m_size v)) (GetAddress new_data) s1 = Done () s2"
    "destroy_n (GetAddress (m_data v)) (unat (m_size v)) s2 = Done () s3"
    "RawMemory_dtor (m_data v) (set_vec this \<lparr>m_data = new_data, m_size = m_size v\<rparr> s3) = Done () s'"
  using assms
  by (auto simp: Reserve_def Capacity_def and_then_Done RawMemory_Swap_eq)

lemma Reserve_store:
  assumes v: "vecs s this = Some v" and d: "Reserve T new_capacity this s = Done u s'"
  shows "\<exists>b. vecs s' = (vecs s)(this \<mapsto>
           (if new_capacity \<le> Capacity v then v
            else \<lparr>m_data = \<lparr>m_buffer = b, m_capacity = new_capacity\<rparr>, m_size = m_size v\<rparr>))"
proof (cases "new_capacity \<le> Capacity v")
  case True
  with Reserve_noop [OF v True, of T] d have "s' = s" by simp
  with True v show ?thesis by (auto simp: fun_upd_idem)
next
  case False
  show ?thesis
  proof (rule Reserve_grow_case [OF v False d])
    fix new_data s1 s2 s3
    assume a: "RawMemory_sized T new_capacity s = Done new_data s1"
      and r: "relocate T (GetAddress (m_data v)) (unat (m_size v)) (GetAddress new_data) s1 = Done () s2"
      and dn: "destroy_n (GetAddress (m_data v)) (unat (m_size v)) s2 = Done () s3"
      and f: "RawMemory_dtor (m_data v) (set_vec this \<lparr>m_data = new_data, m_size = m_size v\<rparr> s3) = Done () s'"
    have "vecs s3 = vecs s"
      using relocate_shape [OF final_Done, OF r] destroy_n_shape [OF final_Done, OF dn]
        RawMemory_sized_Done(2) [OF a]
      by (simp add: shape_def)
    moreover have "vecs s' = vecs (set_vec this \<lparr>m_data = new_data, m_size = m_size v\<rparr> s3)"
      by (rule RawMemory_dtor_vecs [OF final_Done]) (rule f)
    moreover have "new_data = \<lparr>m_buffer = m_buffer new_data, m_capacity = new_capacity\<rparr>"
      using RawMemory_sized_Done(1) [OF a] by simp
    ultimately show ?thesis using False
      by (auto simp: set_vec_def intro!: exI [of _ "m_buffer new_data"])
  qed
qed

lemma Resize_store:
  assumes v: "vecs s this = Some v" and d: "Resize T new_size this s = Done u s'"
  shows "\<exists>b. vecs s' = (vecs s)(this \<mapsto>
           (if new_size = m_size v then v
            else if new_size \<le> Capacity v then \<lparr>m_data = m_data v, m_size = new_size\<rparr>
            else \<lparr>m_data = \<lparr>m_buffer = b, m_capacity = new_size\<rparr>, m_size = new_size\<rparr>))
         \<or> (new_size < m_size v \<and> vecs s' = (vecs s)(this \<mapsto> \<lparr>m_data = m_data v, m_size = new_size\<rparr>))"
proof (cases "new_size = m_size v")
  case True
  with d v have "s' = s" by (simp add: Resize_def)
  with True v show ?thesis by (auto simp: fun_upd_idem)
next
  case False
  show ?thesis
  proof (cases "new_size < m_size v")
    case True
    with False d v obtain s1 where
      dn: "destroy_n (padd (GetAddress (m_data v)) (unat new_size)) (unat (m_size v - new_size)) s = Done () s1"
      and s': "s' = set_vec this \<lparr>m_data = m_data v, m_size = new_size\<rparr> s1"
      by (auto simp: Resize_def and_then_Done)
    have "vecs s1 = vecs s" using destroy_n_shape [OF final_Done, OF dn] by (simp add: shape_def)
    with s' True show ?thesis by (simp add: set_vec_def)
  next
    case ge: False
    with False d v obtain s1 v1 s2 where
      rs: "Reserve T new_size this s = Done () s1"
      and v1: "vecs s1 this = Some v1"
      and uc: "uninitialized_value_construct_n T (padd (GetAddress (m_data v1)) (unat (m_size v1)))
                 (unat (new_size - m_size v1)) s1 = Done () s2"
      and s': "s' = set_vec this \<lparr>m_data = m_data v1, m_size = new_size\<rparr> s2"
      by (auto simp: Resize_def and_then_Done case_option_Done)
    from Reserve_store [OF v rs] obtain b where
      st: "vecs s1 = (vecs s)(this \<mapsto>
           (if new_size \<le> Capacity v then v
            else \<lparr>m_data = \<lparr>m_buffer = b, m_capacity = new_size\<rparr>, m_size = m_size v\<rparr>))" by blast
    have "vecs s2 = vecs s1"
      using uninitialized_value_construct_n_shape [OF final_Done, OF uc] by (simp add: shape_def)
    with s' st v1 False show ?thesis
      by (intro disjI1 exI [of _ b]) (auto simp: set_vec_def split: if_splits)
  qed
qed

lemma PopBack_store:
  assumes v: "vecs s this = Some v" and d: "PopBack this s = Done u s'"
  shows "vecs s' = (vecs s)(this \<mapsto> \<lparr>m_data = m_data v, m_size = m_size v - 1\<rparr>)"
    and "m_size v - 1 \<le> Capacity v"
proof -
  from d v obtain p s1 where p: "RawMemory_plus (m_data v) (m_size v - 1) = Some p"
    and da: "destroy_at p s = Done () s1"
    and s': "s' = set_vec this \<lparr>m_data = m_data v, m_size = m_size v - 1\<rparr> s1"
    by (auto simp: PopBack_def and_then_Done case_option_Done)
  have "vecs s1 = vecs s" using destroy_at_shape [OF final_Done, OF da] by (simp add: shape_def)
  with s' show "vecs s' = (vecs s)(this \<mapsto> \<lparr>m_data = m_data v, m_size = m_size v - 1\<rparr>)"
    by (simp add: set_vec_def)
  from p show "m_size v - 1 \<le> Capacity v"
    by (simp add: RawMemory_plus_Some Capacity_def RawMemory_Capacity_def)
qed

lemma Erase_case:
  assumes "vecs s this = Some v" and "Erase T pos this s = Done it s'"
  obtains index s1 s2 where
    "index_of v pos = Some index" "index + 1 \<le> Capacity v" "m_size v \<le> Capacity v" "index \<le> Capacity v"
    "unat (index + 1) \<le> unat (m_size v)"
    "std_move T (m_buffer (m_data v), unat (index + 1)) (unat (m_size v) - unat (index + 1))
        (m_buffer (m_data v), unat index) s = Done () s1"
    "m_size v - 1 \<le> Capacity v"
    "destroy_at (m_buffer (m_data v), unat (m_size v - 1)) s1 = Done () s2"
    "it = (m_buffer (m_data v), unat index)"
    "s' = set_vec this \<lparr>m_data = m_data v, m_size = m_size v - 1\<rparr> s2"
  using assms
  by (auto simp: Erase_def and_then_Done case_option_Done if_Undefined_Done RawMemory_plus_Some
      Capacity_def RawMemory_Capacity_def not_less)

lemma Erase_store:
  assumes v: "vecs s this = Some v" and d: "Erase T pos this s = Done it s'"
  shows "vecs s' = (vecs s)(this \<mapsto> \<lparr>m_data = m_data v, m_size = m_size v - 1\<rparr>) \<and> m_size v - 1 \<le> Capacity v"
proof (rule Erase_case [OF v d])
  fix index s1 s2
  assume sm: "std_move T (m_buffer (m_data v), unat (index + 1)) (unat (m_size v) - unat (index + 1))
        (m_buffer (m_data v), unat index) s = Done () s1"
    and le: "m_size v - 1 \<le> Capacity v"
    and da: "destroy_at (m_buffer (m_data v), unat (m_size v - 1)) s1 = Done () s2"
    and s': "s' = set_vec this \<lparr>m_data = m_data v, m_size = m_size v - 1\<rparr> s2"
  have "vecs s2 = vecs s"
    using std_move_shape [OF final_Done, OF sm] destroy_at_shape [OF final_Done, OF da]
    by (simp add: shape_def)
  with s' le show ?thesis by (simp add: set_vec_def)
qed

lemma grown_full:
  assumes "m_size v = Capacity v" and "m_capacity nd = (if m_size v = 0 then 1 else m_size v * 2)"
  shows "\<lparr>m_data = nd, m_size = m_size v + 1\<rparr> = grown v (m_buffer nd)"
proof -
  have "nd = \<lparr>m_buffer = m_buffer nd, m_capacity = m_capacity nd\<rparr>" by simp
  then have "nd = \<lparr>m_buffer = m_buffer nd, m_capacity = (if m_size v = 0 then 1 else m_size v * 2)\<rparr>"
    by (simp only: assms(2))
  then show ?thesis unfolding grown_def if_P [OF assms(1)] by simp
qed

lemma EmplaceBack_store:
  assumes v: "vecs s this = Some v" and d: "EmplaceBack T args this s = Done elem s'"
  shows "\<exists>b. vecs s' = (vecs s)(this \<mapsto> grown v b)
           \<and> (m_size v = Capacity v \<longrightarrow> unat (m_size v) < unat (if m_size v = 0 then 1 else m_size v * 2))"
proof (cases "m_size v = Capacity v")
  case True
  from EmplaceBack_grow_cap [OF v True d] obtain nd where
    vs: "vecs s' = (vecs s)(this \<mapsto> \<lparr>m_data = nd, m_size = m_size v + 1\<rparr>)"
    and c: "m_capacity nd = (if m_size v = 0 then 1 else m_size v * 2)"
    and lt: "unat (m_size v) < unat (m_capacity nd)" by blast
  show ?thesis
    using vs lt unfolding grown_full [OF True c] c by blast
next
  case False
  from EmplaceBack_inplace_Done [OF v False d] obtain s1 where
    c: "construct_new T args elem s = Done () s1"
    and s': "s' = set_vec this \<lparr>m_data = m_data v, m_size = m_size v + 1\<rparr> s1" by blast
  have "vecs s1 = vecs s" using construct_new_shape [OF final_Done, OF c] by (simp add: shape_def)
  with s' False show ?thesis by (simp add: set_vec_def grown_def)
qed

lemma Emplace_store:
  assumes v: "vecs s this = Some v" and d: "Emplace T pos args this s = Done it s'"
  shows "\<exists>b. vecs s' = (vecs s)(this \<mapsto> grown v b)
           \<and> (m_size v = Capacity v \<longrightarrow> unat (m_size v) < unat (if m_size v = 0 then 1 else m_size v * 2))"
proof -
  from Emplace_index [OF v d] obtain index where ix: "index_of v pos = Some index" by blast
  show ?thesis
  proof (cases "m_size v = index")
    case True
    from Emplace_back_case [OF v ix True d] obtain elem where
      "EmplaceBack T args this s = Done elem s'" by blast
    then show ?thesis by (rule EmplaceBack_store [OF v])
  next
    case False
    show ?thesis
    proof (cases "m_size v = Capacity v")
      case True
      from Emplace_grow_cap [OF v ix False True d] obtain nd where
        vs: "vecs s' = (vecs s)(this \<mapsto> \<lparr>m_data = nd, m_size = m_size v + 1\<rparr>)"
        and c: "m_capacity nd = (if m_size v = 0 then 1 else m_size v * 2)"
        and lt: "unat (m_size v) < unat (m_capacity nd)" by blast
      show ?thesis
        using vs lt unfolding grown_full [OF True c] c by blast
    next
      case nf: False
      show ?thesis
      proof (rule Emplace_inplace_case [OF v ix False nf d])
        fix x bk lastp slot s1 s2 s3 s4
        assume b: "build T args s = Done x s1"
          and mc: "move_construct_at T lastp bk s1 = Done () s2"
          and mb: "move_backward T (padd (GetAddress (m_data v)) (unat index)) (unat (m_size v - 1) - unat index)
                     (padd (GetAddress (m_data v)) (unat (m_size v))) s2 = Done () s3"
          and ma: "move_assign_local T x slot s3 = Done () s4"
          and s': "s' = emit Dtor (set_vec this \<lparr>m_data = m_data v, m_size = m_size v + 1\<rparr> s4)"
        have "vecs s4 = vecs s"
          using build_shape [OF final_Done, OF b] move_construct_at_shape [OF final_Done, OF mc]
            move_backward_shape [OF final_Done, OF mb] move_assign_local_shape [OF final_Done, OF ma]
          by (simp add: shape_def)
        with s' nf show ?thesis by (simp add: set_vec_def grown_def)
      qed
    qed
  qed
qed

lemma grown_size_le:
  assumes "m_size v \<le> Capacity v"
    and "m_size v = Capacity v \<longrightarrow> unat (m_size v) < unat (if m_size v = 0 then 1 else m_size v * 2)"
  shows "m_size (grown v b) \<le> Capacity (grown v b)"
proof (cases "m_size v = Capacity v")
  case True
  with assms(2) have "m_size v < (if m_size v = 0 then 1 else m_size v * 2)"
    by (simp add: word_less_nat_alt)
  then have "m_size v + 1 \<le> (if m_size v = 0 then 1 else m_size v * 2)" by (rule inc_le)
  with True show ?thesis by (simp add: grown_def Capacity_def RawMemory_Capacity_def)
next
  case False
  with assms(1) have "m_size v < Capacity v" by simp
  then have "m_size v + 1 \<le> Capacity v" by (rule inc_le)
  with False show ?thesis by (simp add: grown_def Capacity_def RawMemory_Capacity_def)
qed

lemma grown_cap:
  assumes "m_size v = Capacity v \<longrightarrow> unat (m_size v) < unat (if m_size v = 0 then 1 else m_size v * 2)"
  shows "unat (Capacity (grown v b)) = (if m_size v = Capacity v then max 1 (2 * unat (Capacity v)) else unat (Capacity v))"
proof (cases "m_size v = Capacity v")
  case True
  with assms have "unat (if m_size v = 0 then 1 else m_size v * 2) = max 1 (2 * unat (m_size v))"
    by (intro double_no_wrap) simp
  with True show ?thesis by (simp add: grown_def Capacity_def RawMemory_Capacity_def)
next
  case False
  then show ?thesis by (simp add: grown_def Capacity_def RawMemory_Capacity_def)
qed

lemma within_upd:
  "size_within s \<Longrightarrow> vecs s' = (vecs s)(this \<mapsto> v') \<Longrightarrow> m_size v' \<le> Capacity v' \<Longrightarrow> size_within s'"
  by (simp add: size_within_def)

lemma within_upd2:
  "size_within s \<Longrightarrow> vecs s' = (vecs s)(this \<mapsto> v', other \<mapsto> w') \<Longrightarrow> m_size v' \<le> Capacity v'
     \<Longrightarrow> m_size w' \<le> Capacity w' \<Longrightarrow> size_within s'"
  by (simp add: size_within_def)

lemma withinD: "size_within s \<Longrightarrow> vecs s i = Some v \<Longrightarrow> m_size v \<le> Capacity v"
  by (simp add: size_within_def)

lemma cap_simps [simp]:
  "Capacity \<lparr>m_data = \<lparr>m_buffer = b, m_capacity = c\<rparr>, m_size = n\<rparr> = c"
  "Capacity \<lparr>m_data = d, m_size = n\<rparr> = m_capacity d"
  by (simp_all add: Capacity_def RawMemory_Capacity_def)

lemma Vector_default_within: "size_within s \<Longrightarrow> Vector_default this s = Done u s' \<Longrightarrow> size_within s'"
  by (erule within_upd [OF _ Vector_default_store]) simp_all

lemma Vector_sized_within:
  assumes "size_within s" and "Vector_sized T n this s = Done u s'"
  shows "size_within s'"
proof -
  from Vector_sized_store [OF assms(2)] obtain b where
    "vecs s' = (vecs s)(this \<mapsto> \<lparr>m_data = \<lparr>m_buffer = b, m_capacity = n\<rparr>, m_size = n\<rparr>)" by blast
  with assms(1) show ?thesis by (rule within_upd) simp
qed

lemma Vector_copy_ctor_within:
  assumes "size_within s" and d: "Vector_copy_ctor T other this s = Done u s'"
  shows "size_within s'"
proof -
  from d obtain ov where o: "vecs s other = Some ov"
    by (cases "vecs s other") (auto simp: Vector_copy_ctor_def split: option.splits)
  from Vector_copy_ctor_store [OF o d] obtain b where
    "vecs s' = (vecs s)(this \<mapsto> \<lparr>m_data = \<lparr>m_buffer = b, m_capacity = m_size ov\<rparr>, m_size = m_size ov\<rparr>)"
    by blast
  with assms(1) show ?thesis by (rule within_upd) simp
qed

lemma Vector_move_ctor_within:
  assumes w: "size_within s" and d: "Vector_move_ctor other this s = Done u s'"
  shows "size_within s'"
proof -
  from d obtain ov where o: "vecs s other = Some ov"
    by (cases "vecs s other") (auto simp: Vector_move_ctor_def split: option.splits)
  from w Vector_move_ctor_store [OF o d] show ?thesis
    by (rule within_upd2) (simp_all add: withinD [OF w o])
qed

lemma Vector_move_assign_within:
  assumes w: "size_within s" and d: "Vector_move_assign rhs this s = Done u s'"
  shows "size_within s'"
proof -
  from d obtain r where o: "vecs s rhs = Some r"
    by (cases "vecs s rhs") (auto simp: Vector_move_assign_def split: option.splits)
  from w Vector_move_assign_store [OF o d] show ?thesis
    by (rule within_upd2) (simp_all add: withinD [OF w o])
qed

lemma Swap_within:
  assumes w: "size_within s" and d: "Swap other this s = Done u s'"
  shows "size_within s'"
proof -
  from d obtain v x where v: "vecs s this = Some v" and x: "vecs s other = Some x"
    by (cases "vecs s this"; cases "vecs s other") (auto simp: Swap_def)
  from w Swap_store [OF v x d] show ?thesis
    by (rule within_upd2) (simp_all add: withinD [OF w v] withinD [OF w x])
qed

lemma Vector_copy_assign_within:
  assumes w: "size_within s" and d: "Vector_copy_assign T rhs this s = Done u s'"
  shows "size_within s'"
proof (cases "this = rhs")
  case True
  with d w show ?thesis by (simp add: Vector_copy_assign_def)
next
  case False
  with d obtain v r where v: "vecs s this = Some v" and r: "vecs s rhs = Some r"
    by (cases "vecs s this"; cases "vecs s rhs") (auto simp: Vector_copy_assign_def)
  from Vector_copy_assign_store [OF v r False d] obtain b where
    st: "vecs s' = (vecs s)(this \<mapsto>
            (if Capacity r > Capacity v
             then \<lparr>m_data = \<lparr>m_buffer = b, m_capacity = m_size r\<rparr>, m_size = m_size r\<rparr>
             else \<lparr>m_data = m_data v, m_size = m_size r\<rparr>))" by blast
  from withinD [OF w r] have "m_size r \<le> Capacity r" .
  then have "\<not> Capacity r > Capacity v \<Longrightarrow> m_size r \<le> m_capacity (m_data v)"
    by (simp add: Capacity_def RawMemory_Capacity_def)
  then have "m_size (if Capacity r > Capacity v
             then \<lparr>m_data = \<lparr>m_buffer = b, m_capacity = m_size r\<rparr>, m_size = m_size r\<rparr>
             else \<lparr>m_data = m_data v, m_size = m_size r\<rparr>)
        \<le> Capacity (if Capacity r > Capacity v
             then \<lparr>m_data = \<lparr>m_buffer = b, m_capacity = m_size r\<rparr>, m_size = m_size r\<rparr>
             else \<lparr>m_data = m_data v, m_size = m_size r\<rparr>)" by auto
  with w st show ?thesis by (rule within_upd)
qed

lemma Reserve_within:
  assumes w: "size_within s" and d: "Reserve T n this s = Done u s'"
  shows "size_within s'"
proof -
  from d obtain v where v: "vecs s this = Some v"
    by (cases "vecs s this") (auto simp: Reserve_def)
  from Reserve_store [OF v d] obtain b where
    st: "vecs s' = (vecs s)(this \<mapsto>
           (if n \<le> Capacity v then v
            else \<lparr>m_data = \<lparr>m_buffer = b, m_capacity = n\<rparr>, m_size = m_size v\<rparr>))" by blast
  from withinD [OF w v] have "m_size v \<le> Capacity v" .
  then have "m_size (if n \<le> Capacity v then v
            else \<lparr>m_data = \<lparr>m_buffer = b, m_capacity = n\<rparr>, m_size = m_size v\<rparr>)
        \<le> Capacity (if n \<le> Capacity v then v
            else \<lparr>m_data = \<lparr>m_buffer = b, m_capacity = n\<rparr>, m_size = m_size v\<rparr>)" by auto
  with w st show ?thesis by (rule within_upd)
qed

lemma Resize_within:
  assumes w: "size_within s" and d: "Resize T n this s = Done u s'"
  shows "size_within s'"
proof -
  from d obtain v where v: "vecs s this = Some v"
    by (cases "vecs s this") (auto simp: Resize_def)
  from withinD [OF w v] have le: "m_size v \<le> Capacity v" .
  from Resize_store [OF v d] consider b where
    "vecs s' = (vecs s)(this \<mapsto>
           (if n = m_size v then v
            else if n \<le> Capacity v then \<lparr>m_data = m_data v, m_size = n\<rparr>
            else \<lparr>m_data = \<lparr>m_buffer = b, m_capacity = n\<rparr>, m_size = n\<rparr>))"
    | "n < m_size v" "vecs s' = (vecs s)(this \<mapsto> \<lparr>m_data = m_data v, m_size = n\<rparr>)" by blast
  then show ?thesis
  proof cases
    case 1
    from le have "m_size (if n = m_size v then v
            else if n \<le> Capacity v then \<lparr>m_data = m_data v, m_size = n\<rparr>
            else \<lparr>m_data = \<lparr>m_buffer = b, m_capacity = n\<rparr>, m_size = n\<rparr>)
        \<le> Capacity (if n = m_size v then v
            else if n \<le> Capacity v then \<lparr>m_data = m_data v, m_size = n\<rparr>
            else \<lparr>m_data = \<lparr>m_buffer = b, m_capacity = n\<rparr>, m_size = n\<rparr>)"
      by (auto simp: Capacity_def RawMemory_Capacity_def)
    with w 1 show ?thesis by (rule within_upd)
  next
    case 2
    from le 2(1) have "m_size \<lparr>m_data = m_data v, m_size = n\<rparr> \<le> Capacity \<lparr>m_data = m_data v, m_size = n\<rparr>"
      by (auto simp: Capacity_def RawMemory_Capacity_def)
    with w 2(2) show ?thesis by (rule within_upd)
  qed
qed

lemma EmplaceBack_within:
  assumes w: "size_within s" and d: "EmplaceBack T args this s = Done elem s'"
  shows "size_within s'"
proof -
  from d obtain v where v: "vecs s this = Some v"
    by (cases "vecs s this") (auto simp: EmplaceBack_def)
  from EmplaceBack_store [OF v d] obtain b where
    st: "vecs s' = (vecs s)(this \<mapsto> grown v b)"
    and nw: "m_size v = Capacity v \<longrightarrow> unat (m_size v) < unat (if m_size v = 0 then 1 else m_size v * 2)"
    by blast
  from w st show ?thesis by (rule within_upd) (rule grown_size_le [OF withinD [OF w v] nw])
qed

lemma Emplace_within:
  assumes w: "size_within s" and d: "Emplace T pos args this s = Done it s'"
  shows "size_within s'"
proof -
  from d obtain v where v: "vecs s this = Some v"
    by (cases "vecs s this") (auto simp: Emplace_def)
  from Emplace_store [OF v d] obtain b where
    st: "vecs s' = (vecs s)(this \<mapsto> grown v b)"
    and nw: "m_size v = Capacity v \<longrightarrow> unat (m_size v) < unat (if m_size v = 0 then 1 else m_size v * 2)"
    by blast
  from w st show ?thesis by (rule within_upd) (rule grown_size_le [OF withinD [OF w v] nw])
qed

lemma Erase_within:
  assumes w: "size_within s" and d: "Erase T pos this s = Done it s'"
  shows "size_within s'"
proof -
  from d obtain v where v: "vecs s this = Some v"
    by (cases "vecs s this") (auto simp: Erase_def)
  from Erase_store [OF v d] w show ?thesis
    by (auto intro: within_upd simp: Capacity_def RawMemory_Capacity_def)
qed

lemma PopBack_within:
  assumes w: "size_within s" and d: "PopBack this s = Done u s'"
  shows "size_within s'"
proof -
  from d obtain v where v: "vecs s this = Some v"
    by (cases "vecs s this") (auto simp: PopBack_def)
  from PopBack_store [OF v d] w show ?thesis
    by (auto intro: within_upd simp: Capacity_def RawMemory_Capacity_def)
qed

lemmas run_defs = prim_defs two_vecs_def int_T_def returned_def

lemma cap_of_store: "vecs s' = (vecs s)(this \<mapsto> w) \<Longrightarrow> cap_of s' this = unat (Capacity w)"
  by (simp add: cap_of_def)

lemma cap_of_vec: "vecs s this = Some v \<Longrightarrow> cap_of s this = unat (Capacity v)"
  by (simp add: cap_of_def)

lemma Reserve_cap:
  assumes v: "vecs s this = Some v" and d: "Reserve T n this s = Done u s'"
  shows "cap_of s' this = (if n \<le> Capacity v then cap_of s this else unat n) \<and> cap_of s this \<le> cap_of s' this"
proof -
  from Reserve_store [OF v d] obtain b where
    st: "vecs s' = (vecs s)(this \<mapsto>
           (if n \<le> Capacity v then v
            else \<lparr>m_data = \<lparr>m_buffer = b, m_capacity = n\<rparr>, m_size = m_size v\<rparr>))" by blast
  show ?thesis
    unfolding cap_of_store [OF st] cap_of_vec [OF v]
    by (auto simp: word_le_nat_alt)
qed

lemma Resize_cap:
  assumes v: "vecs s this = Some v" and le: "m_size v \<le> Capacity v" and d: "Resize T n this s = Done u s'"
  shows "cap_of s' this = (if n \<le> Capacity v then cap_of s this else unat n) \<and> cap_of s this \<le> cap_of s' this"
proof -
  from Resize_store [OF v d] consider b where
    "vecs s' = (vecs s)(this \<mapsto>
           (if n = m_size v then v
            else if n \<le> Capacity v then \<lparr>m_data = m_data v, m_size = n\<rparr>
            else \<lparr>m_data = \<lparr>m_buffer = b, m_capacity = n\<rparr>, m_size = n\<rparr>))"
    | "n < m_size v" "vecs s' = (vecs s)(this \<mapsto> \<lparr>m_data = m_data v, m_size = n\<rparr>)" by blast
  then show ?thesis
  proof cases
    case 1
    show ?thesis
      unfolding cap_of_store [OF 1] cap_of_vec [OF v] using le
      by (auto simp: word_le_nat_alt Capacity_def RawMemory_Capacity_def)
  next
    case 2
    from 2(1) le have "n \<le> Capacity v" by simp
    then show ?thesis
      unfolding cap_of_store [OF 2(2)] cap_of_vec [OF v]
      by (auto simp: Capacity_def RawMemory_Capacity_def)
  qed
qed

lemma grown_cap_le:
  assumes "m_size v = Capacity v \<longrightarrow> unat (m_size v) < unat (if m_size v = 0 then 1 else m_size v * 2)"
  shows "unat (Capacity v) \<le> unat (Capacity (grown v b))"
  unfolding grown_cap [OF assms] by auto

lemma EmplaceBack_cap:
  assumes v: "vecs s this = Some v" and d: "EmplaceBack T args this s = Done elem s'"
  shows "cap_of s' this = (if m_size v = Capacity v then max 1 (2 * cap_of s this) else cap_of s this)
         \<and> cap_of s this \<le> cap_of s' this"
proof -
  from EmplaceBack_store [OF v d] obtain b where
    st: "vecs s' = (vecs s)(this \<mapsto> grown v b)"
    and nw: "m_size v = Capacity v \<longrightarrow> unat (m_size v) < unat (if m_size v = 0 then 1 else m_size v * 2)"
    by blast
  show ?thesis
    unfolding cap_of_store [OF st] cap_of_vec [OF v]
    using grown_cap [OF nw, of b] grown_cap_le [OF nw, of b] by simp
qed

lemma Emplace_cap:
  assumes v: "vecs s this = Some v" and d: "Emplace T pos args this s = Done it s'"
  shows "cap_of s' this = (if m_size v = Capacity v then max 1 (2 * cap_of s this) else cap_of s this)
         \<and> cap_of s this \<le> cap_of s' this"
proof -
  from Emplace_store [OF v d] obtain b where
    st: "vecs s' = (vecs s)(this \<mapsto> grown v b)"
    and nw: "m_size v = Capacity v \<longrightarrow> unat (m_size v) < unat (if m_size v = 0 then 1 else m_size v * 2)"
    by blast
  show ?thesis
    unfolding cap_of_store [OF st] cap_of_vec [OF v]
    using grown_cap [OF nw, of b] grown_cap_le [OF nw, of b] by simp
qed

lemma Erase_cap:
  assumes v: "vecs s this = Some v" and d: "Erase T pos this s = Done it s'"
  shows "cap_of s' this = cap_of s this"
  using Erase_store [OF v d] cap_of_vec [OF v]
  by (auto simp: cap_of_def Capacity_def RawMemory_Capacity_def)

lemma PopBack_cap:
  assumes v: "vecs s this = Some v" and d: "PopBack this s = Done u s'"
  shows "cap_of s' this = cap_of s this"
  using PopBack_store(1) [OF v d] cap_of_vec [OF v]
  by (auto simp: cap_of_def Capacity_def RawMemory_Capacity_def)

lemma Vector_copy_assign_cap:
  assumes v: "vecs s this = Some v" and r: "vecs s rhs = Some r" and ne: "this \<noteq> rhs"
    and d: "Vector_copy_assign T rhs this s = Done u s'"
  shows "cap_of s' this = (if Capacity r > Capacity v then unat (m_size r) else cap_of s this)"
proof -
  from Vector_copy_assign_store [OF v r ne d] obtain b where
    st: "vecs s' = (vecs s)(this \<mapsto>
            (if Capacity r > Capacity v
             then \<lparr>m_data = \<lparr>m_buffer = b, m_capacity = m_size r\<rparr>, m_size = m_size r\<rparr>
             else \<lparr>m_data = m_data v, m_size = m_size r\<rparr>))" by blast
  show ?thesis
    unfolding cap_of_store [OF st] cap_of_vec [OF v]
    by (auto simp: Capacity_def RawMemory_Capacity_def)
qed

section \<open>Properties\<close>

subsection \<open>Moving a RawMemory\<close>

text \<open>
  C1. The claim: moving from a \<open>RawMemory\<close> that owns a block hands the block and the
  capacity to the destination and leaves the source empty, so that one \<open>RawMemory\<close>
  refers to the block. The program: for the source \<open>a\<close> with block 1 and capacity 3, the
  move constructor and the move assignment both leave \<open>a\<close> as it was, so source and
  destination refer to block 1; and when \<open>RawMemory<int> a(3); RawMemory<int>
  b(std::move(a));\<close> goes out of scope, the destructor of \<open>b\<close> deletes the block and that
  of \<open>a\<close> deletes it again.
\<close>

theorem RawMemory_move_leaves_source:
  "RawMemory_move_ctor \<lparr>m_buffer = 1, m_capacity = 3\<rparr>
     = (\<lparr>m_buffer = 1, m_capacity = 3\<rparr>, \<lparr>m_buffer = 1, m_capacity = 3\<rparr>)
   \<and> RawMemory_move_assign RawMemory_default \<lparr>m_buffer = 1, m_capacity = 3\<rparr>
     = (\<lparr>m_buffer = 1, m_capacity = 3\<rparr>, \<lparr>m_buffer = 1, m_capacity = 3\<rparr>)
   \<and> and_then (RawMemory_sized int_T 3 fresh) (\<lambda>a s1.
         case RawMemory_move_ctor a of (b, a') \<Rightarrow>
           and_then (RawMemory_dtor b s1) (\<lambda>u. RawMemory_dtor a')) = Undefined"
  by (simp add: RawMemory_move_ctor_def RawMemory_move_assign_def RawMemory_default_def
      RawMemory_sized_def Allocate_def operator_new_def int_T_def fresh_def RawMemory_dtor_def
      Deallocate_def operator_delete_def block_def set_block_def)

subsection \<open>Assigning a vector to itself\<close>

text \<open>
  C10. Copy assignment of a vector to itself returns at once: the state after the call,
  and with it the size, the capacity and the elements of the vector, is the state before.
\<close>

theorem copy_assign_self:
  "Vector_copy_assign T this this s = Done () s"
  by (simp add: Vector_copy_assign_def)

subsection \<open>Move construction\<close>

text \<open>
  C8. Move construction from a vector \<open>other\<close> never fails. The new vector has the
  storage, the size and the elements that \<open>other\<close> had; \<open>other\<close> is left with
  \<open>nullptr\<close>, capacity 0 and size 0; the heap is untouched and no constructor,
  assignment or destructor of the element type is called.
\<close>

theorem move_ctor_steals:
  assumes "vecs s other = Some ov" and "vecs s this = None"
  shows "\<exists>s'. Vector_move_ctor other this s = Done () s'
           \<and> vecs s' this = Some ov
           \<and> vecs s' other = Some \<lparr>m_data = \<lparr>m_buffer = 0, m_capacity = 0\<rparr>, m_size = 0\<rparr>
           \<and> heap s' = heap s \<and> trace s' = trace s
           \<and> contents s' this = contents s other
           \<and> size_of s' this = size_of s other \<and> cap_of s' this = cap_of s other
           \<and> size_of s' other = 0 \<and> cap_of s' other = 0"
proof -
  from assms have ne: "this \<noteq> other" by auto
  show ?thesis
    using assms ne
    by (simp add: Vector_move_ctor_def RawMemory_move_ctor_def RawMemory_move_assign_def
        RawMemory_default_def RawMemory_dtor_def Deallocate_def operator_delete_def set_vec_def
        contents_def elems_def peek_def block_def size_of_def cap_of_def Size_def Capacity_def
        RawMemory_Capacity_def)
qed

theorem move_ctor_steals_witness:
  "vecs one_vec 0 = Some \<lparr>m_data = \<lparr>m_buffer = 1, m_capacity = 2\<rparr>, m_size = 1\<rparr>
   \<and> vecs one_vec 1 = None
   \<and> (\<exists>s'. Vector_move_ctor 0 1 one_vec = Done () s'
         \<and> vecs s' 1 = Some \<lparr>m_data = \<lparr>m_buffer = 1, m_capacity = 2\<rparr>, m_size = 1\<rparr>
         \<and> contents s' 1 = [Some 7] \<and> size_of s' 0 = 0 \<and> cap_of s' 0 = 0)"
proof -
  have a: "vecs one_vec 0 = Some \<lparr>m_data = \<lparr>m_buffer = 1, m_capacity = 2\<rparr>, m_size = 1\<rparr>"
    by (simp add: one_vec_def)
  have b: "vecs one_vec 1 = None" by (simp add: one_vec_def)
  have c: "contents one_vec 0 = [Some 7]"
    by (simp add: contents_def elems_def one_vec_def peek_def block_def)
  from move_ctor_steals [OF a b] c a b show ?thesis by auto
qed

subsection \<open>Growth doubles the capacity\<close>

text \<open>
  C5. When \<open>EmplaceBack\<close>, either \<open>PushBack\<close>, \<open>Emplace\<close> or either \<open>Insert\<close> is
  called on a vector whose size equals its capacity and returns, the capacity afterwards
  is \<open>max(1, 2 * capacity)\<close> as a number: the product \<open>size_ * 2\<close> has not wrapped
  around, since the new element and the relocated ones were stored inside the new block.
\<close>

theorem growth_doubles:
  assumes "vecs s this = Some v" and "m_size v = Capacity v"
  shows "(\<forall>elem s'. EmplaceBack T args this s = Done elem s' \<longrightarrow> cap_of s' this = max 1 (2 * cap_of s this))
       \<and> (\<forall>s'. PushBack_copy T x this s = Done () s' \<longrightarrow> cap_of s' this = max 1 (2 * cap_of s this))
       \<and> (\<forall>s'. PushBack_move T x this s = Done () s' \<longrightarrow> cap_of s' this = max 1 (2 * cap_of s this))
       \<and> (\<forall>it s'. Emplace T pos args this s = Done it s' \<longrightarrow> cap_of s' this = max 1 (2 * cap_of s this))
       \<and> (\<forall>it s'. Insert_copy T pos x this s = Done it s' \<longrightarrow> cap_of s' this = max 1 (2 * cap_of s this))
       \<and> (\<forall>it s'. Insert_move T pos x this s = Done it s' \<longrightarrow> cap_of s' this = max 1 (2 * cap_of s this))"
proof (intro conjI allI impI)
  fix elem s' assume "EmplaceBack T args this s = Done elem s'"
  then show "cap_of s' this = max 1 (2 * cap_of s this)" by (rule EmplaceBack_doubles [OF assms])
next
  fix s' assume "PushBack_copy T x this s = Done () s'"
  then obtain elem where "EmplaceBack T (ByCopy x) this s = Done elem s'"
    unfolding PushBack_copy_Done by blast
  then show "cap_of s' this = max 1 (2 * cap_of s this)" by (rule EmplaceBack_doubles [OF assms])
next
  fix s' assume "PushBack_move T x this s = Done () s'"
  then obtain elem where "EmplaceBack T (ByMove x) this s = Done elem s'"
    unfolding PushBack_move_Done by blast
  then show "cap_of s' this = max 1 (2 * cap_of s this)" by (rule EmplaceBack_doubles [OF assms])
next
  fix it s' assume "Emplace T pos args this s = Done it s'"
  then show "cap_of s' this = max 1 (2 * cap_of s this)" by (rule Emplace_doubles [OF assms])
next
  fix it s' assume "Insert_copy T pos x this s = Done it s'"
  then show "cap_of s' this = max 1 (2 * cap_of s this)"
    unfolding Insert_copy_def by (rule Emplace_doubles [OF assms])
next
  fix it s' assume "Insert_move T pos x this s = Done it s'"
  then show "cap_of s' this = max 1 (2 * cap_of s this)"
    unfolding Insert_move_def by (rule Emplace_doubles [OF assms])
qed

theorem growth_doubles_witness:
  "vecs full_vec 0 = Some \<lparr>m_data = \<lparr>m_buffer = 1, m_capacity = 1\<rparr>, m_size = 1\<rparr>
   \<and> m_size \<lparr>m_data = \<lparr>m_buffer = 1, m_capacity = 1\<rparr>, m_size = 1\<rparr>
       = Capacity \<lparr>m_data = \<lparr>m_buffer = 1, m_capacity = 1\<rparr>, m_size = 1\<rparr>
   \<and> (\<exists>elem s'. EmplaceBack int_T (ByArgs 5) 0 full_vec = Done elem s' \<and> cap_of s' 0 = 2)
   \<and> (\<exists>s'. PushBack_copy int_T 5 0 full_vec = Done () s' \<and> cap_of s' 0 = 2)
   \<and> (\<exists>s'. PushBack_move int_T 5 0 full_vec = Done () s' \<and> cap_of s' 0 = 2)
   \<and> (\<exists>it s'. Emplace int_T (1, 0) (ByArgs 5) 0 full_vec = Done it s' \<and> cap_of s' 0 = 2)
   \<and> (\<exists>it s'. Insert_copy int_T (1, 0) 5 0 full_vec = Done it s' \<and> cap_of s' 0 = 2)
   \<and> (\<exists>it s'. Insert_move int_T (1, 0) 5 0 full_vec = Done it s' \<and> cap_of s' 0 = 2)"
proof -
  let ?v = "\<lparr>m_data = \<lparr>m_buffer = 1, m_capacity = 1\<rparr>, m_size = 1\<rparr>"
  have a: "vecs full_vec 0 = Some ?v" by (simp add: full_vec_def)
  have b: "m_size ?v = Capacity ?v" by (simp add: Capacity_def RawMemory_Capacity_def)
  have c: "cap_of full_vec 0 = 1" by (simp add: cap_of_def a Capacity_def RawMemory_Capacity_def)
  note g = growth_doubles [OF a b, of int_T "ByArgs 5" 5 "(1, 0)", unfolded c]
  have "returned (EmplaceBack int_T (ByArgs 5) 0 full_vec)"
    by (simp add: EmplaceBack_def full_vec_def int_T_def returned_def prim_defs)
  then have 1: "\<exists>elem s'. EmplaceBack int_T (ByArgs 5) 0 full_vec = Done elem s' \<and> cap_of s' 0 = 2"
    using g by (auto dest!: returnedD)
  have "returned (PushBack_copy int_T 5 0 full_vec)"
    by (simp add: PushBack_copy_def EmplaceBack_def full_vec_def int_T_def returned_def prim_defs)
  then have 2: "\<exists>s'. PushBack_copy int_T 5 0 full_vec = Done () s' \<and> cap_of s' 0 = 2"
    using g by (auto dest!: returnedD)
  have "returned (PushBack_move int_T 5 0 full_vec)"
    by (simp add: PushBack_move_def EmplaceBack_def full_vec_def int_T_def returned_def prim_defs)
  then have 3: "\<exists>s'. PushBack_move int_T 5 0 full_vec = Done () s' \<and> cap_of s' 0 = 2"
    using g by (auto dest!: returnedD)
  have "returned (Emplace int_T (1, 0) (ByArgs 5) 0 full_vec)"
    by (simp add: Emplace_def full_vec_def int_T_def returned_def prim_defs)
  then have 4: "\<exists>it s'. Emplace int_T (1, 0) (ByArgs 5) 0 full_vec = Done it s' \<and> cap_of s' 0 = 2"
    using g by (auto dest!: returnedD)
  have "returned (Insert_copy int_T (1, 0) 5 0 full_vec)"
    by (simp add: Insert_copy_def Emplace_def full_vec_def int_T_def returned_def prim_defs)
  then have 5: "\<exists>it s'. Insert_copy int_T (1, 0) 5 0 full_vec = Done it s' \<and> cap_of s' 0 = 2"
    using g by (auto dest!: returnedD)
  have "returned (Insert_move int_T (1, 0) 5 0 full_vec)"
    by (simp add: Insert_move_def Emplace_def full_vec_def int_T_def returned_def prim_defs)
  then have 6: "\<exists>it s'. Insert_move int_T (1, 0) 5 0 full_vec = Done it s' \<and> cap_of s' 0 = 2"
    using g by (auto dest!: returnedD)
  from a b 1 2 3 4 5 6 show ?thesis by blast
qed

subsection \<open>The size stays within the capacity\<close>

text \<open>
  C2. If every vector in the store has \<open>size \<le> capacity\<close>, then so has every vector in
  the store after any public operation that returns: the four constructors, the two
  assignments, \<open>Swap\<close>, \<open>Reserve\<close>, \<open>Resize\<close>, \<open>PushBack\<close>, \<open>EmplaceBack\<close>,
  \<open>Emplace\<close>, \<open>Insert\<close>, \<open>Erase\<close> and \<open>PopBack\<close>. This covers the vector the
  operation is called on, the source of a move and the argument of \<open>Swap\<close>. Nothing is
  asked of the slots: the hypothesis is the inequality alone.
\<close>

theorem size_within_preserved:
  assumes "size_within s"
  shows "(\<forall>s'. Vector_default this s = Done () s' \<longrightarrow> size_within s')
       \<and> (\<forall>s'. Vector_sized T n this s = Done () s' \<longrightarrow> size_within s')
       \<and> (\<forall>s'. Vector_copy_ctor T other this s = Done () s' \<longrightarrow> size_within s')
       \<and> (\<forall>s'. Vector_move_ctor other this s = Done () s' \<longrightarrow> size_within s')
       \<and> (\<forall>s'. Vector_copy_assign T other this s = Done () s' \<longrightarrow> size_within s')
       \<and> (\<forall>s'. Vector_move_assign other this s = Done () s' \<longrightarrow> size_within s')
       \<and> (\<forall>s'. Swap other this s = Done () s' \<longrightarrow> size_within s')
       \<and> (\<forall>s'. Reserve T n this s = Done () s' \<longrightarrow> size_within s')
       \<and> (\<forall>s'. Resize T n this s = Done () s' \<longrightarrow> size_within s')
       \<and> (\<forall>s'. PushBack_copy T x this s = Done () s' \<longrightarrow> size_within s')
       \<and> (\<forall>s'. PushBack_move T x this s = Done () s' \<longrightarrow> size_within s')
       \<and> (\<forall>elem s'. EmplaceBack T args this s = Done elem s' \<longrightarrow> size_within s')
       \<and> (\<forall>it s'. Emplace T pos args this s = Done it s' \<longrightarrow> size_within s')
       \<and> (\<forall>it s'. Insert_copy T pos x this s = Done it s' \<longrightarrow> size_within s')
       \<and> (\<forall>it s'. Insert_move T pos x this s = Done it s' \<longrightarrow> size_within s')
       \<and> (\<forall>it s'. Erase T pos this s = Done it s' \<longrightarrow> size_within s')
       \<and> (\<forall>s'. PopBack this s = Done () s' \<longrightarrow> size_within s')"
proof (intro conjI allI impI)
  fix s' assume "Vector_default this s = Done () s'"
  with assms show "size_within s'" by (rule Vector_default_within)
next
  fix s' assume "Vector_sized T n this s = Done () s'"
  with assms show "size_within s'" by (rule Vector_sized_within)
next
  fix s' assume "Vector_copy_ctor T other this s = Done () s'"
  with assms show "size_within s'" by (rule Vector_copy_ctor_within)
next
  fix s' assume "Vector_move_ctor other this s = Done () s'"
  with assms show "size_within s'" by (rule Vector_move_ctor_within)
next
  fix s' assume "Vector_copy_assign T other this s = Done () s'"
  with assms show "size_within s'" by (rule Vector_copy_assign_within)
next
  fix s' assume "Vector_move_assign other this s = Done () s'"
  with assms show "size_within s'" by (rule Vector_move_assign_within)
next
  fix s' assume "Swap other this s = Done () s'"
  with assms show "size_within s'" by (rule Swap_within)
next
  fix s' assume "Reserve T n this s = Done () s'"
  with assms show "size_within s'" by (rule Reserve_within)
next
  fix s' assume "Resize T n this s = Done () s'"
  with assms show "size_within s'" by (rule Resize_within)
next
  fix s' assume "PushBack_copy T x this s = Done () s'"
  then obtain elem where "EmplaceBack T (ByCopy x) this s = Done elem s'"
    unfolding PushBack_copy_Done by blast
  with assms show "size_within s'" by (rule EmplaceBack_within)
next
  fix s' assume "PushBack_move T x this s = Done () s'"
  then obtain elem where "EmplaceBack T (ByMove x) this s = Done elem s'"
    unfolding PushBack_move_Done by blast
  with assms show "size_within s'" by (rule EmplaceBack_within)
next
  fix elem s' assume "EmplaceBack T args this s = Done elem s'"
  with assms show "size_within s'" by (rule EmplaceBack_within)
next
  fix it s' assume "Emplace T pos args this s = Done it s'"
  with assms show "size_within s'" by (rule Emplace_within)
next
  fix it s' assume "Insert_copy T pos x this s = Done it s'"
  with assms show "size_within s'" unfolding Insert_copy_def by (rule Emplace_within)
next
  fix it s' assume "Insert_move T pos x this s = Done it s'"
  with assms show "size_within s'" unfolding Insert_move_def by (rule Emplace_within)
next
  fix it s' assume "Erase T pos this s = Done it s'"
  with assms show "size_within s'" by (rule Erase_within)
next
  fix s' assume "PopBack this s = Done () s'"
  with assms show "size_within s'" by (rule PopBack_within)
qed

theorem size_within_preserved_witness:
  "size_within two_vecs
   \<and> (\<exists>s'. Vector_default 2 two_vecs = Done () s' \<and> size_within s')
   \<and> (\<exists>s'. Vector_sized int_T 1 2 two_vecs = Done () s' \<and> size_within s')
   \<and> (\<exists>s'. Vector_copy_ctor int_T 0 2 two_vecs = Done () s' \<and> size_within s')
   \<and> (\<exists>s'. Vector_move_ctor 0 2 two_vecs = Done () s' \<and> size_within s')
   \<and> (\<exists>s'. Vector_copy_assign int_T 1 0 two_vecs = Done () s' \<and> size_within s')
   \<and> (\<exists>s'. Vector_move_assign 1 0 two_vecs = Done () s' \<and> size_within s')
   \<and> (\<exists>s'. Swap 1 0 two_vecs = Done () s' \<and> size_within s')
   \<and> (\<exists>s'. Reserve int_T 8 0 two_vecs = Done () s' \<and> size_within s')
   \<and> (\<exists>s'. Resize int_T 2 0 two_vecs = Done () s' \<and> size_within s')
   \<and> (\<exists>s'. PushBack_copy int_T 5 0 two_vecs = Done () s' \<and> size_within s')
   \<and> (\<exists>s'. PushBack_move int_T 5 0 two_vecs = Done () s' \<and> size_within s')
   \<and> (\<exists>elem s'. EmplaceBack int_T (ByArgs 5) 0 two_vecs = Done elem s' \<and> size_within s')
   \<and> (\<exists>it s'. Emplace int_T (1, 0) (ByArgs 5) 0 two_vecs = Done it s' \<and> size_within s')
   \<and> (\<exists>it s'. Insert_copy int_T (1, 0) 5 0 two_vecs = Done it s' \<and> size_within s')
   \<and> (\<exists>it s'. Insert_move int_T (1, 0) 5 0 two_vecs = Done it s' \<and> size_within s')
   \<and> (\<exists>it s'. Erase int_T (1, 0) 0 two_vecs = Done it s' \<and> size_within s')
   \<and> (\<exists>s'. PopBack 0 two_vecs = Done () s' \<and> size_within s')"
proof -
  have w: "size_within two_vecs"
    by (simp add: size_within_def two_vecs_def Capacity_def RawMemory_Capacity_def)
  note c = size_within_preserved [OF w, where this = 2 and T = int_T and n = 1 and other = 0]
  note g = size_within_preserved [OF w, where this = 0 and T = int_T and n = 8 and other = 1
      and x = 5 and args = "ByArgs 5" and pos = "(1, 0)"]
  note h = size_within_preserved [OF w, where this = 0 and T = int_T and n = 2]
  have "returned (Vector_default 2 two_vecs)"
    by (simp add: Vector_default_def run_defs)
  then have 1: "\<exists>s'. Vector_default 2 two_vecs = Done () s' \<and> size_within s'"
    using c by (auto dest!: returnedD)
  have "returned (Vector_sized int_T 1 2 two_vecs)"
    by (simp add: Vector_sized_def run_defs)
  then have 2: "\<exists>s'. Vector_sized int_T 1 2 two_vecs = Done () s' \<and> size_within s'"
    using c by (auto dest!: returnedD)
  have "returned (Vector_copy_ctor int_T 0 2 two_vecs)"
    by (simp add: Vector_copy_ctor_def copy_of_def run_defs)
  then have 3: "\<exists>s'. Vector_copy_ctor int_T 0 2 two_vecs = Done () s' \<and> size_within s'"
    using c by (auto dest!: returnedD)
  have "returned (Vector_move_ctor 0 2 two_vecs)"
    by (simp add: Vector_move_ctor_def run_defs)
  then have 4: "\<exists>s'. Vector_move_ctor 0 2 two_vecs = Done () s' \<and> size_within s'"
    using c by (auto dest!: returnedD)
  have "returned (Vector_copy_assign int_T 1 0 two_vecs)"
    by (simp add: Vector_copy_assign_def Size_def run_defs)
  then have 5: "\<exists>s'. Vector_copy_assign int_T 1 0 two_vecs = Done () s' \<and> size_within s'"
    using g by (auto dest!: returnedD)
  have "returned (Vector_move_assign 1 0 two_vecs)"
    by (simp add: Vector_move_assign_def run_defs)
  then have 6: "\<exists>s'. Vector_move_assign 1 0 two_vecs = Done () s' \<and> size_within s'"
    using g by (auto dest!: returnedD)
  have "returned (Swap 1 0 two_vecs)"
    by (simp add: Swap_def swap_of_def run_defs)
  then have 7: "\<exists>s'. Swap 1 0 two_vecs = Done () s' \<and> size_within s'"
    using g by (auto dest!: returnedD)
  have "returned (Reserve int_T 8 0 two_vecs)"
    by (simp add: Reserve_def run_defs)
  then have 8: "\<exists>s'. Reserve int_T 8 0 two_vecs = Done () s' \<and> size_within s'"
    using g by (auto dest!: returnedD)
  have "returned (Resize int_T 2 0 two_vecs)"
    by (simp add: Resize_def Reserve_def run_defs)
  then have 9: "\<exists>s'. Resize int_T 2 0 two_vecs = Done () s' \<and> size_within s'"
    using h by (auto dest!: returnedD)
  have "returned (PushBack_copy int_T 5 0 two_vecs)"
    by (simp add: PushBack_copy_def EmplaceBack_def run_defs)
  then have 10: "\<exists>s'. PushBack_copy int_T 5 0 two_vecs = Done () s' \<and> size_within s'"
    using g by (auto dest!: returnedD)
  have "returned (PushBack_move int_T 5 0 two_vecs)"
    by (simp add: PushBack_move_def EmplaceBack_def run_defs)
  then have 11: "\<exists>s'. PushBack_move int_T 5 0 two_vecs = Done () s' \<and> size_within s'"
    using g by (auto dest!: returnedD)
  have "returned (EmplaceBack int_T (ByArgs 5) 0 two_vecs)"
    by (simp add: EmplaceBack_def run_defs)
  then have 12: "\<exists>elem s'. EmplaceBack int_T (ByArgs 5) 0 two_vecs = Done elem s' \<and> size_within s'"
    using g by (auto dest!: returnedD)
  have "returned (Emplace int_T (1, 0) (ByArgs 5) 0 two_vecs)"
    by (simp add: Emplace_def run_defs)
  then have 13: "\<exists>it s'. Emplace int_T (1, 0) (ByArgs 5) 0 two_vecs = Done it s' \<and> size_within s'"
    using g by (auto dest!: returnedD)
  have "returned (Insert_copy int_T (1, 0) 5 0 two_vecs)"
    by (simp add: Insert_copy_def Emplace_def run_defs)
  then have 14: "\<exists>it s'. Insert_copy int_T (1, 0) 5 0 two_vecs = Done it s' \<and> size_within s'"
    using g by (auto dest!: returnedD)
  have "returned (Insert_move int_T (1, 0) 5 0 two_vecs)"
    by (simp add: Insert_move_def Emplace_def run_defs)
  then have 15: "\<exists>it s'. Insert_move int_T (1, 0) 5 0 two_vecs = Done it s' \<and> size_within s'"
    using g by (auto dest!: returnedD)
  have "returned (Erase int_T (1, 0) 0 two_vecs)"
    by (simp add: Erase_def run_defs)
  then have 16: "\<exists>it s'. Erase int_T (1, 0) 0 two_vecs = Done it s' \<and> size_within s'"
    using g by (auto dest!: returnedD)
  have "returned (PopBack 0 two_vecs)"
    by (simp add: PopBack_def run_defs)
  then have 17: "\<exists>s'. PopBack 0 two_vecs = Done () s' \<and> size_within s'"
    using g by (auto dest!: returnedD)
  from w 1 2 3 4 5 6 7 8 9 10 11 12 13 14 15 16 17 show ?thesis by blast
qed

subsection \<open>How the capacity changes\<close>

text \<open>
  C3, as the program has it. On a vector with \<open>size \<le> capacity\<close>, a call that returns
  changes the capacity as follows. \<open>Reserve(n)\<close> and \<open>Resize(n)\<close> leave it alone when
  \<open>n \<le> capacity\<close> and make it \<open>n\<close> otherwise; \<open>PushBack\<close>, \<open>EmplaceBack\<close>,
  \<open>Emplace\<close> and \<open>Insert\<close> leave it alone when \<open>size < capacity\<close> and make it
  \<open>max(1, 2 * capacity)\<close> otherwise; \<open>Erase\<close> and \<open>PopBack\<close> leave it alone. None of
  these decreases it. Copy assignment from another vector leaves it alone when
  \<open>rhs.Capacity() \<le> Capacity()\<close> and otherwise makes it \<open>rhs.Size()\<close>.
\<close>

theorem capacity_changes:
  assumes v: "vecs s this = Some v" and le: "m_size v \<le> Capacity v"
  shows "(\<forall>s'. Reserve T n this s = Done () s' \<longrightarrow>
            cap_of s' this = (if n \<le> Capacity v then cap_of s this else unat n) \<and> cap_of s this \<le> cap_of s' this)
       \<and> (\<forall>s'. Resize T n this s = Done () s' \<longrightarrow>
            cap_of s' this = (if n \<le> Capacity v then cap_of s this else unat n) \<and> cap_of s this \<le> cap_of s' this)
       \<and> (\<forall>s'. PushBack_copy T x this s = Done () s' \<longrightarrow>
            cap_of s' this = (if m_size v = Capacity v then max 1 (2 * cap_of s this) else cap_of s this)
            \<and> cap_of s this \<le> cap_of s' this)
       \<and> (\<forall>s'. PushBack_move T x this s = Done () s' \<longrightarrow>
            cap_of s' this = (if m_size v = Capacity v then max 1 (2 * cap_of s this) else cap_of s this)
            \<and> cap_of s this \<le> cap_of s' this)
       \<and> (\<forall>elem s'. EmplaceBack T args this s = Done elem s' \<longrightarrow>
            cap_of s' this = (if m_size v = Capacity v then max 1 (2 * cap_of s this) else cap_of s this)
            \<and> cap_of s this \<le> cap_of s' this)
       \<and> (\<forall>it s'. Emplace T pos args this s = Done it s' \<longrightarrow>
            cap_of s' this = (if m_size v = Capacity v then max 1 (2 * cap_of s this) else cap_of s this)
            \<and> cap_of s this \<le> cap_of s' this)
       \<and> (\<forall>it s'. Insert_copy T pos x this s = Done it s' \<longrightarrow>
            cap_of s' this = (if m_size v = Capacity v then max 1 (2 * cap_of s this) else cap_of s this)
            \<and> cap_of s this \<le> cap_of s' this)
       \<and> (\<forall>it s'. Insert_move T pos x this s = Done it s' \<longrightarrow>
            cap_of s' this = (if m_size v = Capacity v then max 1 (2 * cap_of s this) else cap_of s this)
            \<and> cap_of s this \<le> cap_of s' this)
       \<and> (\<forall>it s'. Erase T pos this s = Done it s' \<longrightarrow> cap_of s' this = cap_of s this)
       \<and> (\<forall>s'. PopBack this s = Done () s' \<longrightarrow> cap_of s' this = cap_of s this)
       \<and> (\<forall>r s'. this \<noteq> rhs \<longrightarrow> vecs s rhs = Some r \<longrightarrow> Vector_copy_assign T rhs this s = Done () s' \<longrightarrow>
            cap_of s' this = (if Capacity r > Capacity v then unat (m_size r) else cap_of s this))"
proof (intro conjI allI impI)
  fix s' assume "Reserve T n this s = Done () s'"
  from Reserve_cap [OF v this]
  show "cap_of s' this = (if n \<le> Capacity v then cap_of s this else unat n)"
    and "cap_of s this \<le> cap_of s' this" by blast+
next
  fix s' assume "Resize T n this s = Done () s'"
  from Resize_cap [OF v le this]
  show "cap_of s' this = (if n \<le> Capacity v then cap_of s this else unat n)"
    and "cap_of s this \<le> cap_of s' this" by blast+
next
  fix s' assume "PushBack_copy T x this s = Done () s'"
  then obtain elem where "EmplaceBack T (ByCopy x) this s = Done elem s'"
    unfolding PushBack_copy_Done by blast
  from EmplaceBack_cap [OF v this]
  show "cap_of s' this = (if m_size v = Capacity v then max 1 (2 * cap_of s this) else cap_of s this)"
    and "cap_of s this \<le> cap_of s' this" by blast+
next
  fix s' assume "PushBack_move T x this s = Done () s'"
  then obtain elem where "EmplaceBack T (ByMove x) this s = Done elem s'"
    unfolding PushBack_move_Done by blast
  from EmplaceBack_cap [OF v this]
  show "cap_of s' this = (if m_size v = Capacity v then max 1 (2 * cap_of s this) else cap_of s this)"
    and "cap_of s this \<le> cap_of s' this" by blast+
next
  fix elem s' assume "EmplaceBack T args this s = Done elem s'"
  from EmplaceBack_cap [OF v this]
  show "cap_of s' this = (if m_size v = Capacity v then max 1 (2 * cap_of s this) else cap_of s this)"
    and "cap_of s this \<le> cap_of s' this" by blast+
next
  fix it s' assume "Emplace T pos args this s = Done it s'"
  from Emplace_cap [OF v this]
  show "cap_of s' this = (if m_size v = Capacity v then max 1 (2 * cap_of s this) else cap_of s this)"
    and "cap_of s this \<le> cap_of s' this" by blast+
next
  fix it s' assume "Insert_copy T pos x this s = Done it s'"
  then have "Emplace T pos (ByCopy x) this s = Done it s'" by (simp add: Insert_copy_def)
  from Emplace_cap [OF v this]
  show "cap_of s' this = (if m_size v = Capacity v then max 1 (2 * cap_of s this) else cap_of s this)"
    and "cap_of s this \<le> cap_of s' this" by blast+
next
  fix it s' assume "Insert_move T pos x this s = Done it s'"
  then have "Emplace T pos (ByMove x) this s = Done it s'" by (simp add: Insert_move_def)
  from Emplace_cap [OF v this]
  show "cap_of s' this = (if m_size v = Capacity v then max 1 (2 * cap_of s this) else cap_of s this)"
    and "cap_of s this \<le> cap_of s' this" by blast+
next
  fix it s' assume "Erase T pos this s = Done it s'"
  then show "cap_of s' this = cap_of s this" by (rule Erase_cap [OF v])
next
  fix s' assume "PopBack this s = Done () s'"
  then show "cap_of s' this = cap_of s this" by (rule PopBack_cap [OF v])
next
  fix r s' assume "this \<noteq> rhs" and "vecs s rhs = Some r" and "Vector_copy_assign T rhs this s = Done () s'"
  then show "cap_of s' this = (if Capacity r > Capacity v then unat (m_size r) else cap_of s this)"
    using Vector_copy_assign_cap [OF v] by blast
qed

text \<open>
  C3, as the claim has it, fails for copy assignment: assigning a vector of capacity 4
  and size 1 to a vector of capacity 2 leaves the latter with capacity 1.
\<close>

theorem copy_assign_shrinks_capacity:
  "cap_of two_vecs 1 = 2 \<and> cap_after (Vector_copy_assign int_T 0 1 two_vecs) 1 = Some 1"
  by (simp add: cap_of_def cap_after_def Vector_copy_assign_def copy_of_def destroy_of_def swap_of_def
      Size_def run_defs)

theorem capacity_changes_witness:
  "vecs two_vecs 0 = Some \<lparr>m_data = \<lparr>m_buffer = 1, m_capacity = 4\<rparr>, m_size = 1\<rparr>
   \<and> m_size \<lparr>m_data = \<lparr>m_buffer = 1, m_capacity = 4\<rparr>, m_size = 1\<rparr>
       \<le> Capacity \<lparr>m_data = \<lparr>m_buffer = 1, m_capacity = 4\<rparr>, m_size = 1\<rparr>
   \<and> 0 \<noteq> (1::nat)
   \<and> vecs two_vecs 1 = Some \<lparr>m_data = \<lparr>m_buffer = 2, m_capacity = 2\<rparr>, m_size = 0\<rparr>
   \<and> (\<exists>s'. Reserve int_T 8 0 two_vecs = Done () s' \<and> cap_of s' 0 = 8)
   \<and> (\<exists>s'. Resize int_T 2 0 two_vecs = Done () s' \<and> cap_of s' 0 = 4)
   \<and> (\<exists>s'. PushBack_copy int_T 5 0 two_vecs = Done () s' \<and> cap_of s' 0 = 4)
   \<and> (\<exists>s'. PushBack_move int_T 5 0 two_vecs = Done () s' \<and> cap_of s' 0 = 4)
   \<and> (\<exists>elem s'. EmplaceBack int_T (ByArgs 5) 0 two_vecs = Done elem s' \<and> cap_of s' 0 = 4)
   \<and> (\<exists>it s'. Emplace int_T (1, 0) (ByArgs 5) 0 two_vecs = Done it s' \<and> cap_of s' 0 = 4)
   \<and> (\<exists>it s'. Insert_copy int_T (1, 0) 5 0 two_vecs = Done it s' \<and> cap_of s' 0 = 4)
   \<and> (\<exists>it s'. Insert_move int_T (1, 0) 5 0 two_vecs = Done it s' \<and> cap_of s' 0 = 4)
   \<and> (\<exists>it s'. Erase int_T (1, 0) 0 two_vecs = Done it s' \<and> cap_of s' 0 = 4)
   \<and> (\<exists>s'. PopBack 0 two_vecs = Done () s' \<and> cap_of s' 0 = 4)
   \<and> (\<exists>s'. Vector_copy_assign int_T 1 0 two_vecs = Done () s' \<and> cap_of s' 0 = 4)"
proof -
  let ?v = "\<lparr>m_data = \<lparr>m_buffer = 1, m_capacity = 4\<rparr>, m_size = 1\<rparr>"
  let ?r = "\<lparr>m_data = \<lparr>m_buffer = 2, m_capacity = 2\<rparr>, m_size = 0\<rparr>"
  have a: "vecs two_vecs 0 = Some ?v" by (simp add: two_vecs_def)
  have b: "m_size ?v \<le> Capacity ?v" by simp
  have r: "vecs two_vecs 1 = Some ?r" by (simp add: two_vecs_def)
  have c: "cap_of two_vecs 0 = 4" by (simp add: cap_of_def a)
  have ne: "0 \<noteq> (1::nat)" by simp
  note g = capacity_changes [OF a b, where T = int_T and n = 8 and x = 5 and args = "ByArgs 5"
      and pos = "(1, 0)" and rhs = 1, unfolded c, simplified]
  note h = capacity_changes [OF a b, where T = int_T and n = 2, unfolded c, simplified]
  have "returned (Reserve int_T 8 0 two_vecs)"
    by (simp add: Reserve_def run_defs)
  then have 1: "\<exists>s'. Reserve int_T 8 0 two_vecs = Done () s' \<and> cap_of s' 0 = 8"
    using g by (auto dest!: returnedD)
  have "returned (Resize int_T 2 0 two_vecs)"
    by (simp add: Resize_def Reserve_def run_defs)
  then have 2: "\<exists>s'. Resize int_T 2 0 two_vecs = Done () s' \<and> cap_of s' 0 = 4"
    using h by (auto dest!: returnedD)
  have "returned (PushBack_copy int_T 5 0 two_vecs)"
    by (simp add: PushBack_copy_def EmplaceBack_def run_defs)
  then have 3: "\<exists>s'. PushBack_copy int_T 5 0 two_vecs = Done () s' \<and> cap_of s' 0 = 4"
    using g by (auto dest!: returnedD)
  have "returned (PushBack_move int_T 5 0 two_vecs)"
    by (simp add: PushBack_move_def EmplaceBack_def run_defs)
  then have 4: "\<exists>s'. PushBack_move int_T 5 0 two_vecs = Done () s' \<and> cap_of s' 0 = 4"
    using g by (auto dest!: returnedD)
  have "returned (EmplaceBack int_T (ByArgs 5) 0 two_vecs)"
    by (simp add: EmplaceBack_def run_defs)
  then have 5: "\<exists>elem s'. EmplaceBack int_T (ByArgs 5) 0 two_vecs = Done elem s' \<and> cap_of s' 0 = 4"
    using g by (auto dest!: returnedD)
  have "returned (Emplace int_T (1, 0) (ByArgs 5) 0 two_vecs)"
    by (simp add: Emplace_def run_defs)
  then have 6: "\<exists>it s'. Emplace int_T (1, 0) (ByArgs 5) 0 two_vecs = Done it s' \<and> cap_of s' 0 = 4"
    using g by (auto dest!: returnedD)
  have "returned (Insert_copy int_T (1, 0) 5 0 two_vecs)"
    by (simp add: Insert_copy_def Emplace_def run_defs)
  then have 7: "\<exists>it s'. Insert_copy int_T (1, 0) 5 0 two_vecs = Done it s' \<and> cap_of s' 0 = 4"
    using g by (auto dest!: returnedD)
  have "returned (Insert_move int_T (1, 0) 5 0 two_vecs)"
    by (simp add: Insert_move_def Emplace_def run_defs)
  then have 8: "\<exists>it s'. Insert_move int_T (1, 0) 5 0 two_vecs = Done it s' \<and> cap_of s' 0 = 4"
    using g by (auto dest!: returnedD)
  have "returned (Erase int_T (1, 0) 0 two_vecs)"
    by (simp add: Erase_def run_defs)
  then have 9: "\<exists>it s'. Erase int_T (1, 0) 0 two_vecs = Done it s' \<and> cap_of s' 0 = 4"
    using g by (auto dest!: returnedD)
  have "returned (PopBack 0 two_vecs)"
    by (simp add: PopBack_def run_defs)
  then have 10: "\<exists>s'. PopBack 0 two_vecs = Done () s' \<and> cap_of s' 0 = 4"
    using g by (auto dest!: returnedD)
  have "returned (Vector_copy_assign int_T 1 0 two_vecs)"
    by (simp add: Vector_copy_assign_def Size_def run_defs)
  then have 11: "\<exists>s'. Vector_copy_assign int_T 1 0 two_vecs = Done () s' \<and> cap_of s' 0 = 4"
    using g r by (auto dest!: returnedD)
  from a b ne r 1 2 3 4 5 6 7 8 9 10 11 show ?thesis by blast
qed

end
